theory Spec2Isabelle
  imports Complex_Main "HOL-Library.AList" "HOL-Library.Multiset"
begin

section \<open>Conventions of the embedding\<close>

text \<open>
  The Python sources \<^verbatim>\<open>backend/config.py\<close>, \<^verbatim>\<open>backend/grid.py\<close>,
  \<^verbatim>\<open>backend/collector.py\<close> and \<^verbatim>\<open>backend/profiler.py\<close> are embedded as HOL
  functions.
  \<^item> A Python \<^verbatim>\<open>dict\<close> is an association list in insertion order with distinct keys;
    \<^verbatim>\<open>d[k] = v\<close> is \<open>dict_set\<close>: an existing key keeps its position and gets the new
    value, a new key goes to the end.
  \<^item> A Python \<^verbatim>\<open>float\<close> is idealised as a \<^typ>\<open>real\<close>: \<^verbatim>\<open>math.sin\<close>, \<^verbatim>\<open>math.exp\<close>,
    \<^verbatim>\<open>math.log\<close> are the real functions, and the \<^verbatim>\<open>ValueError\<close> that \<^verbatim>\<open>math.sqrt\<close>,
    \<^verbatim>\<open>math.asin\<close> and \<^verbatim>\<open>math.log\<close> raise outside their domain is a value of
    \<open>py_error\<close>, as is the \<^verbatim>\<open>ZeroDivisionError\<close> of a division by zero. Rounding error of
    the binary representation, overflow and \<^verbatim>\<open>nan\<close> are not modelled.
  \<^item> A Python \<^verbatim>\<open>int\<close> is an \<^typ>\<open>int\<close>; a counter that only counts up from zero is a
    \<^typ>\<open>nat\<close>.
  \<^item> \<^verbatim>\<open>json.dumps\<close> of a value is the value itself; the serialisation is not modelled.
\<close>

datatype py_error = ValueError | ZeroDivisionError | TransportError

primrec dict_set :: "'k \<Rightarrow> 'v \<Rightarrow> ('k \<times> 'v) list \<Rightarrow> ('k \<times> 'v) list" where
  "dict_set k v [] = [(k, v)]"
| "dict_set k v (p # ps) = (if fst p = k then (k, v) # ps else p # dict_set k v ps)"

definition dict_get :: "('k \<times> 'v) list \<Rightarrow> 'k \<Rightarrow> 'v \<Rightarrow> 'v" where
  \<comment> \<open>\<^verbatim>\<open>d.get(k, default)\<close>\<close>
  "dict_get d k dflt = (case map_of d k of None \<Rightarrow> dflt | Some v \<Rightarrow> v)"

section \<open>config.py\<close>

definition COLLECTOR_RETRY_MAX :: nat where
  "COLLECTOR_RETRY_MAX = 3"

definition MAX_INFLUENCE_M :: real where
  "MAX_INFLUENCE_M = 1000"


definition SIGMA_M :: real where
  "SIGMA_M = 200"

definition BBOX_SOUTH :: real where
  "BBOX_SOUTH = 28.35"

definition BBOX_NORTH :: real where
  "BBOX_NORTH = 28.53"

definition BBOX_WEST :: real where
  "BBOX_WEST = 76.82"

definition BBOX_EAST :: real where
  "BBOX_EAST = 77.15"

definition AGE_BUCKETS :: "string list" where
  "AGE_BUCKETS = [''0-12'', ''13-17'', ''18-24'', ''25-34'', ''35-50'', ''50+'']"

definition TYPE_TO_AGE_WEIGHTS :: "(string \<times> (string \<times> real) list) list" where
  "TYPE_TO_AGE_WEIGHTS =
    [(''school'', [(''0-12'', 0.7), (''13-17'', 0.3)]),
     (''university'', [(''18-24'', 0.8), (''25-34'', 0.2)]),
     (''shopping_mall'', [(''25-34'', 0.3), (''35-50'', 0.4), (''18-24'', 0.2), (''13-17'', 0.1)]),
     (''store'', [(''25-34'', 0.4), (''35-50'', 0.3), (''18-24'', 0.2), (''50+'', 0.1)]),
     (''restaurant'', [(''25-34'', 0.35), (''18-24'', 0.25), (''35-50'', 0.25), (''13-17'', 0.1), (''50+'', 0.05)]),
     (''hospital'', [(''35-50'', 0.25), (''50+'', 0.3), (''25-34'', 0.2), (''0-12'', 0.1), (''13-17'', 0.05), (''18-24'', 0.1)]),
     (''transit_station'', [(''18-24'', 0.3), (''25-34'', 0.4), (''35-50'', 0.2), (''13-17'', 0.1)]),
     (''park'', [(''0-12'', 0.2), (''25-34'', 0.25), (''35-50'', 0.3), (''50+'', 0.15), (''13-17'', 0.1)]),
     (''gym'', [(''18-24'', 0.35), (''25-34'', 0.4), (''35-50'', 0.2), (''13-17'', 0.05)]),
     (''movie_theater'', [(''13-17'', 0.15), (''18-24'', 0.35), (''25-34'', 0.3), (''35-50'', 0.15), (''0-12'', 0.05)]),
     (''bar'', [(''18-24'', 0.3), (''25-34'', 0.45), (''35-50'', 0.2), (''50+'', 0.05)]),
     (''night_club'', [(''18-24'', 0.45), (''25-34'', 0.4), (''35-50'', 0.1), (''13-17'', 0.05)]),
     (''place_of_worship'', [(''35-50'', 0.3), (''50+'', 0.35), (''25-34'', 0.15), (''0-12'', 0.1), (''13-17'', 0.05), (''18-24'', 0.05)]),
     (''lodging'', [(''25-34'', 0.35), (''35-50'', 0.35), (''18-24'', 0.15), (''50+'', 0.15)]),
     (''corporate_office'', [(''25-34'', 0.45), (''35-50'', 0.35), (''18-24'', 0.15), (''50+'', 0.05)]),
     (''coworking_space'', [(''18-24'', 0.25), (''25-34'', 0.5), (''35-50'', 0.2), (''13-17'', 0.05)]),
     (''it_park'', [(''25-34'', 0.5), (''35-50'', 0.3), (''18-24'', 0.15), (''50+'', 0.05)]),
     (''residential'', [(''0-12'', 0.15), (''13-17'', 0.1), (''25-34'', 0.3), (''35-50'', 0.3), (''50+'', 0.15)])]"

definition INTEREST_CATEGORIES :: "string list" where
  "INTEREST_CATEGORIES =
    [''education'', ''shopping'', ''food'', ''health'', ''transit'', ''entertainment'',
     ''business'', ''lifestyle'']"

definition TYPE_TO_INTEREST_WEIGHTS :: "(string \<times> (string \<times> real) list) list" where
  "TYPE_TO_INTEREST_WEIGHTS =
    [(''school'', [(''education'', 1)]),
     (''university'', [(''education'', 0.9), (''food'', 0.1)]),
     (''shopping_mall'', [(''shopping'', 0.8), (''entertainment'', 0.2)]),
     (''store'', [(''shopping'', 0.9), (''food'', 0.1)]),
     (''restaurant'', [(''food'', 1)]),
     (''hospital'', [(''health'', 1)]),
     (''transit_station'', [(''transit'', 1)]),
     (''park'', [(''lifestyle'', 0.7), (''health'', 0.3)]),
     (''gym'', [(''lifestyle'', 0.5), (''health'', 0.5)]),
     (''movie_theater'', [(''entertainment'', 1)]),
     (''bar'', [(''entertainment'', 0.7), (''food'', 0.3)]),
     (''night_club'', [(''entertainment'', 1)]),
     (''place_of_worship'', [(''lifestyle'', 1)]),
     (''lodging'', [(''business'', 0.5), (''lifestyle'', 0.5)]),
     (''corporate_office'', [(''business'', 1)]),
     (''coworking_space'', [(''business'', 0.9), (''lifestyle'', 0.1)]),
     (''it_park'', [(''business'', 1)]),
     (''residential'', [(''lifestyle'', 1)])]"

definition TYPE_TO_LANDUSE :: "(string \<times> string) list" where
  "TYPE_TO_LANDUSE =
    [(''school'', ''education''),
     (''university'', ''education''),
     (''shopping_mall'', ''commercial''),
     (''store'', ''commercial''),
     (''restaurant'', ''commercial''),
     (''hospital'', ''health''),
     (''transit_station'', ''transit''),
     (''park'', ''recreation''),
     (''gym'', ''recreation''),
     (''movie_theater'', ''entertainment''),
     (''bar'', ''entertainment''),
     (''night_club'', ''entertainment''),
     (''place_of_worship'', ''residential''),
     (''lodging'', ''hospitality''),
     (''corporate_office'', ''office''),
     (''coworking_space'', ''office''),
     (''it_park'', ''office''),
     (''residential'', ''residential'')]"

definition TYPE_IMPORTANCE :: "(string \<times> real) list" where
  "TYPE_IMPORTANCE =
    [(''hospital'', 1.5),
     (''university'', 1.3),
     (''school'', 1.2),
     (''shopping_mall'', 1.4),
     (''store'', 0.8),
     (''restaurant'', 0.7),
     (''transit_station'', 1),
     (''park'', 0.9),
     (''gym'', 0.8),
     (''movie_theater'', 1),
     (''bar'', 0.7),
     (''night_club'', 0.8),
     (''place_of_worship'', 0.9),
     (''lodging'', 1),
     (''corporate_office'', 1.6),
     (''coworking_space'', 1.4),
     (''it_park'', 1.7),
     (''residential'', 1.3)]"

section \<open>collector.py: parsing one place\<close>

text \<open>
  One element of the \<^verbatim>\<open>results\<close> array of the lookup service. Every field may be
  missing; \<open>rp_lat\<close> and \<open>rp_lng\<close> are \<^verbatim>\<open>geometry.location.lat\<close> and \<^verbatim>\<open>.lng\<close>, missing
  when any level of the nesting is missing.
\<close>

record raw_place =
  rp_place_id :: "string option"
  rp_name :: "string option"
  rp_lat :: "real option"
  rp_lng :: "real option"
  rp_types :: "string list option"
  rp_rating :: "real option"
  rp_user_ratings_total :: "int option"

record poi =
  place_id :: string
  name :: string
  lat :: real
  lon :: real
  types :: "string list"
  rating :: "real option"
  user_ratings_total :: "int option"
  raw_json :: raw_place
  last_updated :: string

definition KEYWORD_TO_TYPE :: "(string \<times> string) list" where
  "KEYWORD_TO_TYPE =
    [(''corporate office'', ''corporate_office''),
     (''coworking space'', ''coworking_space''),
     (''IT park'', ''it_park''),
     (''residential apartment'', ''residential''),
     (''housing society'', ''residential''),
     (''hotel'', ''hotel'')]"

definition opt_default :: "'a option \<Rightarrow> 'a \<Rightarrow> 'a" where
  \<comment> \<open>\<^verbatim>\<open>result.get(key, default)\<close> on a field that may be missing\<close>
  "opt_default v dflt = (case v of None \<Rightarrow> dflt | Some x \<Rightarrow> x)"

definition truthy :: "string option \<Rightarrow> bool" where
  \<comment> \<open>truth value of a \<^verbatim>\<open>str | None\<close>: neither \<^verbatim>\<open>None\<close> nor the empty string\<close>
  "truthy s = (case s of None \<Rightarrow> False | Some x \<Rightarrow> x \<noteq> [])"

definition parse_place :: "string \<Rightarrow> string option \<Rightarrow> raw_place \<Rightarrow> poi" where
  \<comment> \<open>\<^verbatim>\<open>_parse_place(result, inject_type)\<close>; \<open>now\<close> is the clock reading of
      \<^verbatim>\<open>datetime.now(timezone.utc).isoformat()\<close>\<close>
  "parse_place now inject_type result =
    (let types0 = opt_default (rp_types result) [];
         types1 = (if truthy inject_type \<and> the inject_type \<notin> set types0
                   then the inject_type # types0 else types0)
     in \<lparr> place_id = opt_default (rp_place_id result) [],
          name = opt_default (rp_name result) [],
          lat = opt_default (rp_lat result) 0,
          lon = opt_default (rp_lng result) 0,
          types = types1,
          rating = rp_rating result,
          user_ratings_total = rp_user_ratings_total result,
          raw_json = result,
          last_updated = now \<rparr>)"

section \<open>collector.py: one work unit with retries\<close>

text \<open>
  What one \<^verbatim>\<open>client.get\<close> followed by \<^verbatim>\<open>resp.json()\<close> can do: answer with an HTTP
  status code and a body (\<^verbatim>\<open>data.get("status", "")\<close> and \<^verbatim>\<open>data.get("results", [])\<close>),
  raise \<^verbatim>\<open>httpx.TimeoutException\<close>, or raise anything else, which the function does not
  catch.
\<close>

datatype http_reply =
    Reply int string "raw_place list"
  | TimeoutException
  | OtherException

text \<open>
  The loop variable \<open>retries\<close> of the source, and two ghost fields that record what the
  loop did: the number of \<^verbatim>\<open>client.get\<close> calls issued and the arguments of the
  \<^verbatim>\<open>asyncio.sleep\<close> calls, in seconds, in order.
\<close>

record fetch_state =
  retries :: nat
  attempts :: nat
  sleeps :: "nat list"

text \<open>
  \<open>env\<close> is the lookup service as this unit sees it: \<open>env i\<close> is the outcome of the
  unit's \<open>i\<close>-th call (from 0). The admission semaphore only delays a call and is not
  modelled.
\<close>

function fetch_loop ::
  "(nat \<Rightarrow> http_reply) \<Rightarrow> string \<Rightarrow> string option \<Rightarrow> fetch_state
    \<Rightarrow> (py_error + poi list) \<times> fetch_state" where
  "fetch_loop env now inject_type s =
    (if retries s \<le> COLLECTOR_RETRY_MAX then
       (let s1 = s\<lparr>attempts := attempts s + 1\<rparr> in
        case env (attempts s) of
          Reply status_code status results \<Rightarrow>
            if status_code = 200 then
              if status = ''OK'' then (Inr (map (parse_place now inject_type) results), s1)
              else if status = ''ZERO_RESULTS'' then (Inr [], s1)
              else if status = ''OVER_QUERY_LIMIT'' then
                fetch_loop env now inject_type
                  (s1\<lparr>sleeps := sleeps s1 @ [2 ^ retries s1], retries := retries s1 + 1\<rparr>)
              else if status = ''REQUEST_DENIED'' then (Inr [], s1)
              else (Inr [], s1)
            else (Inr [], s1)
        | TimeoutException \<Rightarrow>
            fetch_loop env now inject_type
              (s1\<lparr>retries := retries s1 + 1, sleeps := sleeps s1 @ [1]\<rparr>)
        | OtherException \<Rightarrow> (Inl TransportError, s1))
     else (Inr [], s))"
  by pat_completeness auto
termination
  by (relation "measure (\<lambda>(env, now, inject_type, s). COLLECTOR_RETRY_MAX + 1 - retries s)")
     auto

definition inject_type_of :: "string option \<Rightarrow> string option" where
  \<comment> \<open>\<^verbatim>\<open>KEYWORD_TO_TYPE.get(keyword) if keyword else None\<close>\<close>
  "inject_type_of keyword =
    (if truthy keyword then map_of KEYWORD_TO_TYPE (the keyword) else None)"

definition fetch_one_tile ::
  "(nat \<Rightarrow> http_reply) \<Rightarrow> string \<Rightarrow> string option
    \<Rightarrow> (py_error + poi list) \<times> fetch_state" where
  \<comment> \<open>\<^verbatim>\<open>_fetch_one_tile\<close>; the request parameters (\<open>lat\<close>, \<open>lon\<close>, \<open>radius\<close>, \<open>poi_type\<close>)
      only choose what the service is asked, that is, \<open>env\<close>\<close>
  "fetch_one_tile env now keyword =
    fetch_loop env now (inject_type_of keyword) \<lparr>retries = 0, attempts = 0, sleeps = []\<rparr>"

text \<open>
  Classes of replies, named after the retry policy: a rate-limited reply and a timeout
  are retried; a reply that is neither a success nor rate-limited ends the unit.
\<close>

definition rate_limited :: "http_reply \<Rightarrow> bool" where
  "rate_limited r =
    (case r of
       Reply code status results \<Rightarrow> code = 200 \<and> status = ''OVER_QUERY_LIMIT''
     | _ \<Rightarrow> False)"

definition retryable :: "http_reply \<Rightarrow> bool" where
  "retryable r = (rate_limited r \<or> r = TimeoutException)"

definition terminal_failure :: "http_reply \<Rightarrow> bool" where
  "terminal_failure r =
    (case r of
       Reply code status results \<Rightarrow>
         code \<noteq> 200 \<or>
         (status \<noteq> ''OK'' \<and> status \<noteq> ''ZERO_RESULTS'' \<and> status \<noteq> ''OVER_QUERY_LIMIT'')
     | _ \<Rightarrow> False)"

section \<open>collector.py: merging the results of all units\<close>

text \<open>
  The body of the two inner loops of \<^verbatim>\<open>collect_pois\<close>:
  \<^verbatim>\<open>if poi["place_id"]: all_pois[poi["place_id"]] = poi\<close>, over every record of every
  batch of one \<^verbatim>\<open>asyncio.gather\<close>, and the outer loop over the rounds of tiles, which
  starts from the empty dictionary.
\<close>

definition merge_poi :: "poi \<Rightarrow> (string \<times> poi) list \<Rightarrow> (string \<times> poi) list" where
  "merge_poi p all_pois =
    (if place_id p \<noteq> [] then dict_set (place_id p) p all_pois else all_pois)"

definition merge_results ::
  "poi list list \<Rightarrow> (string \<times> poi) list \<Rightarrow> (string \<times> poi) list" where
  "merge_results results all_pois = fold (\<lambda>batch d. fold merge_poi batch d) results all_pois"

definition collect_merge :: "poi list list list \<Rightarrow> (string \<times> poi) list" where
  "collect_merge rounds = fold merge_results rounds []"


section \<open>grid.py\<close>

definition R :: real where
  "R = 6378137"

definition radians :: "real \<Rightarrow> real" where
  \<comment> \<open>\<^verbatim>\<open>math.radians\<close>\<close>
  "radians x = x * pi / 180"

definition offset_point :: "real \<Rightarrow> real \<Rightarrow> real \<Rightarrow> real \<Rightarrow> py_error + real \<times> real" where
  "offset_point lat0 lon0 dx dy =
    (if R * cos (radians lat0) = 0 then Inl ZeroDivisionError
     else Inr (lat0 + (dy / R) * (180 / pi),
               lon0 + (dx / (R * cos (radians lat0))) * (180 / pi)))"

definition haversine :: "real \<Rightarrow> real \<Rightarrow> real \<Rightarrow> real \<Rightarrow> py_error + real" where
  \<comment> \<open>\<^verbatim>\<open>math.sqrt\<close> raises on a negative argument, \<^verbatim>\<open>math.asin\<close> outside \<open>[-1, 1]\<close>\<close>
  "haversine lat1 lon1 lat2 lon2 =
    (let phi1 = radians lat1; phi2 = radians lat2;
         dphi = radians (lat2 - lat1);
         dlam = radians (lon2 - lon1);
         a = (sin (dphi / 2))\<^sup>2 + cos phi1 * cos phi2 * (sin (dlam / 2))\<^sup>2
     in if a < 0 then Inl ValueError
        else if 1 < sqrt a then Inl ValueError
        else Inr (2 * R * arcsin (sqrt a)))"

section \<open>collector.py: tile centers\<close>

definition tile_radius :: real where
  "tile_radius = MAX_INFLUENCE_M"

definition spacing :: real where
  "spacing = tile_radius * sqrt 2 * 0.9"

text \<open>
  The inner loop of \<^verbatim>\<open>compute_tile_centers\<close> (\<^verbatim>\<open>while x <= x_max\<close>), which appends one
  center and adds \<open>spacing\<close> to \<open>x\<close>, and the outer loop (\<^verbatim>\<open>while y <= y_max\<close>), which
  runs the inner loop from \<open>x_min\<close> and adds \<open>spacing\<close> to \<open>y\<close>.
\<close>

function tile_row ::
  "real \<Rightarrow> real \<Rightarrow> real \<Rightarrow> (real \<times> real) list \<Rightarrow> py_error + (real \<times> real) list" where
  "tile_row x_max y x centers =
    (if x \<le> x_max then
       (case offset_point BBOX_SOUTH BBOX_WEST x y of
          Inl e \<Rightarrow> Inl e
        | Inr c \<Rightarrow> tile_row x_max y (x + spacing) (centers @ [c]))
     else Inr centers)"
  by pat_completeness auto
termination
proof (relation "measure (\<lambda>(x_max, y, x, centers). nat (\<lfloor>(x_max - x) / spacing\<rfloor> + 1))")
  show "wf (measure (\<lambda>(x_max, y, x, centers). nat (\<lfloor>(x_max - x) / spacing\<rfloor> + 1)))"
    by simp
next
  fix x_max y x :: real and centers :: "(real \<times> real) list" and c :: "real \<times> real"
  assume le: "x \<le> x_max"
  have pos: "0 < spacing"
    by (simp add: spacing_def tile_radius_def MAX_INFLUENCE_M_def)
  have "(x_max - (x + spacing)) / spacing = (x_max - x) / spacing - 1"
    using pos by (simp add: field_simps)
  then have step: "\<lfloor>(x_max - (x + spacing)) / spacing\<rfloor> = \<lfloor>(x_max - x) / spacing\<rfloor> - 1"
    by simp
  have "0 \<le> (x_max - x) / spacing"
    using le pos by simp
  then have "0 \<le> \<lfloor>(x_max - x) / spacing\<rfloor>"
    by simp
  with step show "((x_max, y, x + spacing, centers @ [c]), (x_max, y, x, centers))
      \<in> measure (\<lambda>(x_max, y, x, centers). nat (\<lfloor>(x_max - x) / spacing\<rfloor> + 1))"
    by simp
qed

function tile_rows ::
  "real \<Rightarrow> real \<Rightarrow> real \<Rightarrow> real \<Rightarrow> (real \<times> real) list \<Rightarrow> py_error + (real \<times> real) list" where
  "tile_rows x_min x_max y_max y centers =
    (if y \<le> y_max then
       (case tile_row x_max y x_min centers of
          Inl e \<Rightarrow> Inl e
        | Inr centers' \<Rightarrow> tile_rows x_min x_max y_max (y + spacing) centers')
     else Inr centers)"
  by pat_completeness auto
termination
proof (relation "measure (\<lambda>(x_min, x_max, y_max, y, centers). nat (\<lfloor>(y_max - y) / spacing\<rfloor> + 1))")
  show "wf (measure (\<lambda>(x_min, x_max, y_max, y, centers). nat (\<lfloor>(y_max - y) / spacing\<rfloor> + 1)))"
    by simp
next
  fix x_min x_max y_max y :: real and centers centers' :: "(real \<times> real) list"
  assume le: "y \<le> y_max"
  have pos: "0 < spacing"
    by (simp add: spacing_def tile_radius_def MAX_INFLUENCE_M_def)
  have "(y_max - (y + spacing)) / spacing = (y_max - y) / spacing - 1"
    using pos by (simp add: field_simps)
  then have step: "\<lfloor>(y_max - (y + spacing)) / spacing\<rfloor> = \<lfloor>(y_max - y) / spacing\<rfloor> - 1"
    by simp
  have "0 \<le> (y_max - y) / spacing"
    using le pos by simp
  then have "0 \<le> \<lfloor>(y_max - y) / spacing\<rfloor>"
    by simp
  with step show "((x_min, x_max, y_max, y + spacing, centers'), (x_min, x_max, y_max, y, centers))
      \<in> measure (\<lambda>(x_min, x_max, y_max, y, centers). nat (\<lfloor>(y_max - y) / spacing\<rfloor> + 1))"
    by simp
qed

definition compute_tile_centers :: "py_error + (real \<times> real) list" where
  "compute_tile_centers =
    (case haversine BBOX_SOUTH BBOX_WEST BBOX_SOUTH BBOX_EAST of
       Inl e \<Rightarrow> Inl e
     | Inr width_m \<Rightarrow>
        (case haversine BBOX_SOUTH BBOX_WEST BBOX_NORTH BBOX_WEST of
           Inl e \<Rightarrow> Inl e
         | Inr height_m \<Rightarrow>
            (let buffer = tile_radius;
                 x_min = - buffer; x_max = width_m + buffer;
                 y_min = - buffer; y_max = height_m + buffer
             in tile_rows x_min x_max y_max y_min [])))"

section \<open>profiler.py: constants and weights\<close>

definition DEG_PER_M_LAT :: real where
  "DEG_PER_M_LAT = 1 / 111320"

definition DEG_PER_M_LON :: real where
  "DEG_PER_M_LON = 1 / (111320 * cos (radians 28.44))"

definition LAT_MARGIN :: real where
  "LAT_MARGIN = MAX_INFLUENCE_M * DEG_PER_M_LAT * 1.1"

definition LON_MARGIN :: real where
  "LON_MARGIN = MAX_INFLUENCE_M * DEG_PER_M_LON * 1.1"

definition gaussian_decay :: "real \<Rightarrow> real \<Rightarrow> real" where
  "gaussian_decay d sigma = exp (- (d * d) / (2 * sigma * sigma))"

definition popularity_factor :: "int option \<Rightarrow> py_error + real" where
  \<comment> \<open>\<^verbatim>\<open>not user_ratings_total\<close> holds for \<^verbatim>\<open>None\<close> and for 0; \<^verbatim>\<open>math.log\<close> raises on an
      argument that is not positive\<close>
  "popularity_factor ratings_total =
    (case ratings_total of
       None \<Rightarrow> Inr 1
     | Some n \<Rightarrow>
         if n = 0 then Inr 1
         else if 1 + n \<le> 0 then Inl ValueError
         else Inr (1 + ln (real_of_int (1 + n))))"

fun primary_type :: "string list \<Rightarrow> string option" where
  "primary_type [] = None"
| "primary_type (t # ts) =
    (if t \<in> set (map fst TYPE_IMPORTANCE) then Some t else primary_type ts)"

text \<open>
  Python's \<^verbatim>\<open>round(x, ndigits)\<close> on a float: to the nearest multiple of \<open>10 ^ -ndigits\<close>,
  a tie to the even one.
\<close>

definition round_half_even :: "real \<Rightarrow> int" where
  "round_half_even x =
    (let f = \<lfloor>x\<rfloor>; r = x - of_int f
     in if r < 1 / 2 then f
        else if 1 / 2 < r then f + 1
        else if even f then f else f + 1)"

definition py_round :: "real \<Rightarrow> nat \<Rightarrow> real" where
  "py_round x ndigits = of_int (round_half_even (x * 10 ^ ndigits)) / 10 ^ ndigits"

section \<open>profiler.py: the profile of one grid point\<close>

record grid_point =
  gp_id :: string
  gp_i :: int
  gp_j :: int
  gp_lat :: real
  gp_lon :: real

record nearest_entry =
  ne_place_id :: string
  ne_name :: string
  ne_type :: string
  ne_distance_m :: real

record poi_summary =
  nearest :: "nearest_entry list"
  counts :: "(string \<times> nat) list"

record audience =
  age_profile :: "(string \<times> real) list"
  interests :: "(string \<times> real) list"
  footfall_proxy :: real
  confidence :: real

record profile =
  grid_point_id :: string
  prof_lat :: real
  prof_lon :: real
  prof_poi_summary :: poi_summary
  geographic_attributes :: "string list"
  prof_audience :: audience
  sigma_m :: real
  max_influence_m :: real

definition nearest_entry_of :: "poi \<times> real \<Rightarrow> nearest_entry" where
  \<comment> \<open>the body of the loop over \<^verbatim>\<open>nearby_pois[:10]\<close>\<close>
  "nearest_entry_of pd =
    (let p = fst pd; d = snd pd;
         ptype = (case primary_type (types p) of
                    Some t \<Rightarrow> t
                  | None \<Rightarrow> (case types p of [] \<Rightarrow> ''unknown'' | t # _ \<Rightarrow> t))
     in \<lparr> ne_place_id = place_id p, ne_name = name p, ne_type = ptype,
          ne_distance_m = py_round d 1 \<rparr>)"

definition dd_add :: "'k \<Rightarrow> 'v::plus \<Rightarrow> 'v \<Rightarrow> ('k \<times> 'v) list \<Rightarrow> ('k \<times> 'v) list" where
  \<comment> \<open>\<^verbatim>\<open>d[k] += w\<close> on a \<^verbatim>\<open>defaultdict\<close> whose default is \<open>zero\<close>\<close>
  "dd_add k zero w d = dict_set k (dict_get d k zero + w) d"

fun count_types :: "(poi \<times> real) list \<Rightarrow> (string \<times> nat) list \<Rightarrow> (string \<times> nat) list" where
  "count_types [] cnt = cnt"
| "count_types (pd # rest) cnt =
    (case primary_type (types (fst pd)) of
       None \<Rightarrow> count_types rest cnt
     | Some ptype \<Rightarrow> count_types rest (dd_add ptype 0 1 cnt))"

record accum =
  age_scores :: "(string \<times> real) list"
  interest_scores :: "(string \<times> real) list"
  footfall_total :: real
  total_influence :: real
  landuse_scores :: "(string \<times> real) list"

definition fan_out :: "real \<Rightarrow> (string \<times> real) list \<Rightarrow> (string \<times> real) list
    \<Rightarrow> (string \<times> real) list" where
  \<comment> \<open>\<^verbatim>\<open>for bucket, w in table.items(): scores[bucket] += base_weight * w\<close>\<close>
  "fan_out base_weight table scores =
    fold (\<lambda>bw s. dd_add (fst bw) 0 (base_weight * snd bw) s) table scores"

fun accumulate :: "(poi \<times> real) list \<Rightarrow> accum \<Rightarrow> py_error + accum" where
  "accumulate [] acc = Inr acc"
| "accumulate (pd # rest) acc =
    (case primary_type (types (fst pd)) of
       None \<Rightarrow> accumulate rest acc
     | Some ptype \<Rightarrow>
        (let decay = gaussian_decay (snd pd) SIGMA_M;
             importance = dict_get TYPE_IMPORTANCE ptype 1
         in case popularity_factor (user_ratings_total (fst pd)) of
              Inl e \<Rightarrow> Inl e
            | Inr pop \<Rightarrow>
               (let base_weight = importance * decay * pop
                in accumulate rest
                    \<lparr> age_scores =
                        fan_out base_weight (dict_get TYPE_TO_AGE_WEIGHTS ptype [])
                          (age_scores acc),
                      interest_scores =
                        fan_out base_weight (dict_get TYPE_TO_INTEREST_WEIGHTS ptype [])
                          (interest_scores acc),
                      footfall_total = footfall_total acc + pop * decay,
                      total_influence = total_influence acc + base_weight,
                      landuse_scores =
                        dd_add (dict_get TYPE_TO_LANDUSE ptype ''other'') 0 base_weight
                          (landuse_scores acc) \<rparr>)))"

definition normalize :: "(string \<times> real) list \<Rightarrow> (string \<times> real) list" where
  "normalize scores =
    (let total = sum_list (map snd scores)
     in if total = 0 then map (\<lambda>kv. (fst kv, 0)) scores
        else map (\<lambda>kv. (fst kv, py_round (snd kv / total) 2)) scores)"

definition zero_dict :: "string list \<Rightarrow> (string \<times> real) list" where
  \<comment> \<open>\<^verbatim>\<open>{b: 0.0 for b in buckets}\<close>\<close>
  "zero_dict buckets = fold (\<lambda>b d. dict_set b 0 d) buckets []"

definition dict_update :: "('k \<times> 'v) list \<Rightarrow> ('k \<times> 'v) list \<Rightarrow> ('k \<times> 'v) list" where
  \<comment> \<open>\<^verbatim>\<open>d.update(other)\<close>\<close>
  "dict_update d other = fold (\<lambda>kv d'. dict_set (fst kv) (snd kv) d') other d"

definition sorted_reverse :: "('a \<Rightarrow> real) \<Rightarrow> 'a list \<Rightarrow> 'a list" where
  \<comment> \<open>\<^verbatim>\<open>sorted(xs, key=f, reverse=True)\<close>: the stable sort of the reversed list, reversed\<close>
  "sorted_reverse f xs = rev (sort_key f (rev xs))"

definition compute_profile :: "grid_point \<Rightarrow> (poi \<times> real) list \<Rightarrow> py_error + profile" where
  "compute_profile grid_point nearby_pois0 =
    (let nearby_pois = sort_key snd nearby_pois0;
         nearest_list = map nearest_entry_of (take 10 nearby_pois);
         counts = count_types nearby_pois []
     in case accumulate nearby_pois
               \<lparr> age_scores = [], interest_scores = [], footfall_total = 0,
                 total_influence = 0, landuse_scores = [] \<rparr> of
          Inl e \<Rightarrow> Inl e
        | Inr acc \<Rightarrow>
           (let age_profile = dict_update (zero_dict AGE_BUCKETS) (normalize (age_scores acc));
                interests =
                  dict_update (zero_dict INTEREST_CATEGORIES) (normalize (interest_scores acc));
                footfall_proxy =
                  (if 0 < footfall_total acc
                   then py_round (min 1 (footfall_total acc / 20)) 2 else 0);
                confidence =
                  (if 0 < total_influence acc
                   then py_round (min 1 (total_influence acc / 15)) 2 else 0);
                geo_attrs =
                  (if landuse_scores acc \<noteq> []
                   then take 3 (sorted_reverse (\<lambda>k. dict_get (landuse_scores acc) k 0)
                                  (map fst (landuse_scores acc)))
                   else [])
            in Inr \<lparr> grid_point_id = gp_id grid_point,
                     prof_lat = gp_lat grid_point,
                     prof_lon = gp_lon grid_point,
                     prof_poi_summary = \<lparr> nearest = nearest_list, counts = counts \<rparr>,
                     geographic_attributes = geo_attrs,
                     prof_audience =
                       \<lparr> age_profile = age_profile, interests = interests,
                         footfall_proxy = footfall_proxy, confidence = confidence \<rparr>,
                     sigma_m = SIGMA_M,
                     max_influence_m = MAX_INFLUENCE_M \<rparr>))"

section \<open>profiler.py: all profiles\<close>

fun find_candidates :: "grid_point \<Rightarrow> poi list \<Rightarrow> py_error + (poi \<times> real) list" where
  \<comment> \<open>the loop over \<^verbatim>\<open>poi_coords\<close> in \<^verbatim>\<open>compute_all_profiles\<close>\<close>
  "find_candidates gp [] = Inr []"
| "find_candidates gp (p # rest) =
    (if \<bar>lat p - gp_lat gp\<bar> \<le> LAT_MARGIN \<and> \<bar>lon p - gp_lon gp\<bar> \<le> LON_MARGIN then
       (case haversine (gp_lat gp) (gp_lon gp) (lat p) (lon p) of
          Inl e \<Rightarrow> Inl e
        | Inr d \<Rightarrow>
           (case find_candidates gp rest of
              Inl e \<Rightarrow> Inl e
            | Inr cs \<Rightarrow> Inr (if d \<le> MAX_INFLUENCE_M then (p, d) # cs else cs)))
     else find_candidates gp rest)"

fun compute_all_profiles :: "grid_point list \<Rightarrow> poi list \<Rightarrow> py_error + profile list" where
  \<comment> \<open>the profiles in the order in which they are written to the store\<close>
  "compute_all_profiles [] all_pois = Inr []"
| "compute_all_profiles (gp # gps) all_pois =
    (case find_candidates gp all_pois of
       Inl e \<Rightarrow> Inl e
     | Inr candidates \<Rightarrow>
        (case compute_profile gp candidates of
           Inl e \<Rightarrow> Inl e
         | Inr prof \<Rightarrow>
            (case compute_all_profiles gps all_pois of
               Inl e \<Rightarrow> Inl e
             | Inr profs \<Rightarrow> Inr (prof # profs))))"

section \<open>Invariants\<close>

text \<open>
  What holds of the score dictionaries throughout the accumulation loop of
  \<^verbatim>\<open>compute_profile\<close>: the keys are distinct and come from the fixed bucket universes.
\<close>

definition scores_ok :: "accum \<Rightarrow> bool" where
  "scores_ok acc \<longleftrightarrow>
    distinct (map fst (age_scores acc)) \<and> set (map fst (age_scores acc)) \<subseteq> set AGE_BUCKETS \<and>
    distinct (map fst (interest_scores acc)) \<and>
    set (map fst (interest_scores acc)) \<subseteq> set INTEREST_CATEGORIES"


text \<open>The confidence of the profile that a call of \<^verbatim>\<open>compute_profile\<close> returns, if it returns one.\<close>

definition result_confidence :: "py_error + profile \<Rightarrow> real option" where
  "result_confidence r =
    (case r of Inl e \<Rightarrow> None | Inr prof \<Rightarrow> Some (confidence (prof_audience prof)))"

section \<open>The exact filter of the specification\<close>




section \<open>Concrete inputs\<close>

definition always_timeout :: "nat \<Rightarrow> http_reply" where
  "always_timeout i = TimeoutException"

definition denied_after_timeout :: "nat \<Rightarrow> http_reply" where
  "denied_after_timeout i =
    (if i = 0 then TimeoutException else Reply 200 ''REQUEST_DENIED'' [])"

definition cafe :: raw_place where
  "cafe = \<lparr> rp_place_id = Some ''p1'', rp_name = Some ''Cafe'', rp_lat = Some 28.4,
            rp_lng = Some 77, rp_types = Some [''restaurant''], rp_rating = Some 4,
            rp_user_ratings_total = Some 50 \<rparr>"

definition limited_twice_then_ok :: "nat \<Rightarrow> http_reply" where
  "limited_twice_then_ok i =
    (if i < 2 then Reply 200 ''OVER_QUERY_LIMIT'' [] else Reply 200 ''OK'' [cafe])"

definition named_poi :: "string \<Rightarrow> string \<Rightarrow> poi" where
  "named_poi pid nm =
    parse_place ''2024-01-01T00:00:00+00:00'' None
      (cafe\<lparr>rp_place_id := Some pid, rp_name := Some nm\<rparr>)"

definition overlapping_rounds :: "poi list list list" where
  "overlapping_rounds =
    [[[named_poi ''p1'' ''first''], [named_poi [] ''anonymous'']],
     [[named_poi ''p1'' ''second'']]]"

definition origin_point :: grid_point where
  "origin_point = \<lparr> gp_id = ''g_0_0'', gp_i = 0, gp_j = 0, gp_lat = 28.4084, gp_lon = 77.0417 \<rparr>"

definition school :: "string \<Rightarrow> poi" where
  "school pid =
    \<lparr> place_id = pid, name = ''School'', lat = 28.4084, lon = 77.0425,
      types = [''point_of_interest'', ''school''], rating = Some 4,
      user_ratings_total = Some 50, raw_json = cafe, last_updated = ''2024-01-01'' \<rparr>"

definition two_schools :: "(poi \<times> real) list" where
  "two_schools = [(school ''far'', 800), (school ''near'', 50)]"

definition huge_reviews :: int where
  "huge_reviews = 10 ^ 100000"

definition famous_school :: poi where
  "famous_school = (school ''famous'')\<lparr>user_ratings_total := Some huge_reviews\<rparr>"

definition corner_cafe :: poi where
  "corner_cafe =
    \<lparr> place_id = ''c1'', name = ''Corner Cafe'', lat = 28.4084, lon = 77.0418,
      types = [''cafe'', ''food''], rating = Some 4, user_ratings_total = Some 50,
      raw_json = cafe, last_updated = ''2024-01-01'' \<rparr>"


section \<open>The retry loop\<close>

declare fetch_loop.simps [simp del]

lemma fetch_loop_exhausted:
  "\<not> retries s \<le> COLLECTOR_RETRY_MAX \<Longrightarrow> fetch_loop env now ity s = (Inr [], s)"
  by (simp add: fetch_loop.simps [of env now ity s])

lemma fetch_loop_limited:
  "retries s \<le> COLLECTOR_RETRY_MAX \<Longrightarrow> rate_limited (env (attempts s)) \<Longrightarrow>
   fetch_loop env now ity s =
   fetch_loop env now ity
     \<lparr>retries = retries s + 1, attempts = attempts s + 1, sleeps = sleeps s @ [2 ^ retries s]\<rparr>"
  by (cases s, subst fetch_loop.simps)
     (auto simp add: rate_limited_def Let_def split: http_reply.splits)

lemma fetch_loop_timeout:
  "retries s \<le> COLLECTOR_RETRY_MAX \<Longrightarrow> env (attempts s) = TimeoutException \<Longrightarrow>
   fetch_loop env now ity s =
   fetch_loop env now ity
     \<lparr>retries = retries s + 1, attempts = attempts s + 1, sleeps = sleeps s @ [1]\<rparr>"
  by (cases s, subst fetch_loop.simps) (simp add: Let_def)

lemma fetch_loop_ok:
  "retries s \<le> COLLECTOR_RETRY_MAX \<Longrightarrow> env (attempts s) = Reply 200 ''OK'' results \<Longrightarrow>
   fetch_loop env now ity s =
   (Inr (map (parse_place now ity) results), s\<lparr>attempts := attempts s + 1\<rparr>)"
  by (simp add: fetch_loop.simps [of env now ity s] Let_def)

lemma fetch_loop_terminal:
  "retries s \<le> COLLECTOR_RETRY_MAX \<Longrightarrow> terminal_failure (env (attempts s)) \<Longrightarrow>
   fetch_loop env now ity s = (Inr [], s\<lparr>attempts := attempts s + 1\<rparr>)"
  by (auto simp add: fetch_loop.simps [of env now ity s] terminal_failure_def Let_def
      split: http_reply.splits)

lemma fetch_loop_limited_run:
  "retries s + k \<le> COLLECTOR_RETRY_MAX + 1 \<Longrightarrow>
   (\<forall>i<k. rate_limited (env (attempts s + i))) \<Longrightarrow>
   fetch_loop env now ity s =
   fetch_loop env now ity
     \<lparr>retries = retries s + k, attempts = attempts s + k,
      sleeps = sleeps s @ map (\<lambda>i. 2 ^ (retries s + i)) [0..<k]\<rparr>"
proof (induction k)
  case 0
  then show ?case by (cases s) simp
next
  case (Suc k)
  let ?t = "\<lparr>retries = retries s + k, attempts = attempts s + k,
      sleeps = sleeps s @ map (\<lambda>i. 2 ^ (retries s + i)) [0..<k]\<rparr>"
  have "fetch_loop env now ity s = fetch_loop env now ity ?t"
    using Suc by simp
  also have "\<dots> = fetch_loop env now ity
     \<lparr>retries = retries ?t + 1, attempts = attempts ?t + 1, sleeps = sleeps ?t @ [2 ^ retries ?t]\<rparr>"
    using Suc.prems by (intro fetch_loop_limited) auto
  finally show ?case by simp
qed

lemma fetch_loop_retry_run:
  "retries s + k \<le> COLLECTOR_RETRY_MAX + 1 \<Longrightarrow>
   (\<forall>i<k. retryable (env (attempts s + i))) \<Longrightarrow>
   \<exists>sl. length sl = k \<and> fetch_loop env now ity s =
   fetch_loop env now ity
     \<lparr>retries = retries s + k, attempts = attempts s + k, sleeps = sleeps s @ sl\<rparr>"
proof (induction k)
  case 0
  then show ?case by (cases s) simp
next
  case (Suc k)
  then obtain sl where sl: "length sl = k" "fetch_loop env now ity s =
   fetch_loop env now ity
     \<lparr>retries = retries s + k, attempts = attempts s + k, sleeps = sleeps s @ sl\<rparr>"
    by auto
  let ?t = "\<lparr>retries = retries s + k, attempts = attempts s + k, sleeps = sleeps s @ sl\<rparr>"
  have r: "retries ?t \<le> COLLECTOR_RETRY_MAX" using Suc.prems by simp
  have "retryable (env (attempts ?t))" using Suc.prems by simp
  then consider "rate_limited (env (attempts ?t))" | "env (attempts ?t) = TimeoutException"
    by (auto simp: retryable_def)
  then show ?case
  proof cases
    case 1
    from fetch_loop_limited [of ?t env now ity, OF r 1] sl show ?thesis
      by (intro exI [of _ "sl @ [2 ^ (retries s + k)]"]) simp
  next
    case 2
    from fetch_loop_timeout [of ?t env now ity, OF r 2] sl show ?thesis
      by (intro exI [of _ "sl @ [1]"]) simp
  qed
qed

lemma fetch_loop_attempts_le:
  "attempts (snd (fetch_loop env now ity s)) \<le> attempts s + (COLLECTOR_RETRY_MAX + 1 - retries s)"
proof (induction env now ity s rule: fetch_loop.induct)
  case (1 env now ity s)
  show ?case
  proof (cases "retries s \<le> COLLECTOR_RETRY_MAX")
    case False
    then show ?thesis by (simp add: fetch_loop.simps [of env now ity s])
  next
    case True
    show ?thesis
    proof (cases "env (attempts s)")
      case (Reply code status results)
      show ?thesis
      proof (cases "code = 200 \<and> status = ''OVER_QUERY_LIMIT''")
        case False
        with True Reply show ?thesis
          by (auto simp add: fetch_loop.simps [of env now ity s] Let_def)
      next
        case lim: True
        have "attempts (snd (fetch_loop env now ity
                (s\<lparr>attempts := attempts s + 1,
                   sleeps := sleeps s @ [2 ^ retries s], retries := retries s + 1\<rparr>)))
              \<le> attempts s + 1 + (COLLECTOR_RETRY_MAX + 1 - (retries s + 1))"
          using "1.IH"(1) [OF True refl Reply] lim by simp
        with True Reply lim show ?thesis
          by (simp add: fetch_loop.simps [of env now ity s] Let_def)
      qed
    next
      case TimeoutException
      have "attempts (snd (fetch_loop env now ity
                (s\<lparr>attempts := attempts s + 1,
                   retries := retries s + 1, sleeps := sleeps s @ [1]\<rparr>)))
              \<le> attempts s + 1 + (COLLECTOR_RETRY_MAX + 1 - (retries s + 1))"
        using "1.IH"(2) [OF True refl TimeoutException] by simp
      with True TimeoutException show ?thesis
        by (simp add: fetch_loop.simps [of env now ity s] Let_def)
    next
      case OtherException
      with True show ?thesis
        by (simp add: fetch_loop.simps [of env now ity s] Let_def)
    qed
  qed
qed



section \<open>The merge\<close>

lemma dict_set_keys:
  "map fst (dict_set k v d) = (if k \<in> set (map fst d) then map fst d else map fst d @ [k])"
  by (induction d) auto

lemma map_of_dict_set: "map_of (dict_set k v d) = (map_of d)(k \<mapsto> v)"
  by (induction d) (auto simp: fun_eq_iff)

lemma distinct_merge_poi: "distinct (map fst d) \<Longrightarrow> distinct (map fst (merge_poi p d))"
  by (simp add: merge_poi_def dict_set_keys)

lemma map_of_merge_poi:
  "map_of (merge_poi p d) k = (if place_id p \<noteq> [] \<and> place_id p = k then Some p else map_of d k)"
  by (simp add: merge_poi_def map_of_dict_set)

lemma distinct_fold_merge_poi:
  "distinct (map fst d) \<Longrightarrow> distinct (map fst (fold merge_poi ps d))"
  by (induction ps arbitrary: d) (simp_all add: distinct_merge_poi)

lemma map_of_fold_merge_poi:
  "map_of (fold merge_poi ps d) k =
    (if k \<noteq> [] \<and> k \<in> place_id ` set ps
     then Some (last (filter (\<lambda>p. place_id p = k) ps)) else map_of d k)"
proof (induction ps arbitrary: d)
  case Nil
  then show ?case by simp
next
  case (Cons p ps)
  show ?case
  proof (cases "k \<noteq> [] \<and> k \<in> place_id ` set ps")
    case True
    then have "filter (\<lambda>p. place_id p = k) ps \<noteq> []"
      by (auto simp: filter_empty_conv)
    with True show ?thesis by (simp add: Cons.IH)
  next
    case False
    then have "filter (\<lambda>p. place_id p = k) ps = [] \<or> k = []"
      by (auto simp: filter_empty_conv)
    with False show ?thesis
      by (auto simp add: Cons.IH map_of_merge_poi)
  qed
qed

lemma merge_results_concat: "merge_results results d = fold merge_poi (concat results) d"
  unfolding merge_results_def by (induction results arbitrary: d) simp_all

lemma collect_merge_concat_aux:
  "fold merge_results rounds d = fold merge_poi (concat (concat rounds)) d"
  by (induction rounds arbitrary: d) (simp_all add: merge_results_concat)

lemma collect_merge_concat: "collect_merge rounds = fold merge_poi (concat (concat rounds)) []"
  by (simp add: collect_merge_def collect_merge_concat_aux)


section \<open>Dictionaries\<close>

lemma zero_dict_AGE_BUCKETS: "zero_dict AGE_BUCKETS = map (\<lambda>b. (b, 0)) AGE_BUCKETS"
  by (simp add: zero_dict_def AGE_BUCKETS_def)

lemma zero_dict_INTEREST_CATEGORIES:
  "zero_dict INTEREST_CATEGORIES = map (\<lambda>b. (b, 0)) INTEREST_CATEGORIES"
  by (simp add: zero_dict_def INTEREST_CATEGORIES_def)

section \<open>Rounding\<close>

lemma round_half_even_bounds: "of_int (round_half_even x) \<le> x + 1/2 \<and> x - 1/2 \<le> of_int (round_half_even x)"
  unfolding round_half_even_def Let_def by (auto simp: not_less) linarith+

lemma round_half_even_floor: "\<lfloor>x\<rfloor> \<le> round_half_even x \<and> round_half_even x \<le> \<lfloor>x\<rfloor> + 1"
  unfolding round_half_even_def Let_def by auto

lemma round_half_even_mono:
  assumes "x \<le> y"
  shows "round_half_even x \<le> round_half_even y"
proof (cases "\<lfloor>x\<rfloor> = \<lfloor>y\<rfloor>")
  case True
  with assms show ?thesis
    unfolding round_half_even_def Let_def by auto
next
  case False
  with assms have "\<lfloor>x\<rfloor> < \<lfloor>y\<rfloor>" using floor_mono [OF assms] by linarith
  then show ?thesis
    using round_half_even_floor [of x] round_half_even_floor [of y] by linarith
qed

lemma py_round_mono: "x \<le> y \<Longrightarrow> py_round x n \<le> py_round y n"
  unfolding py_round_def
  by (intro divide_right_mono) (auto intro!: round_half_even_mono mult_right_mono)

lemma sorted_take_drop:
  "sorted (map f xs) \<Longrightarrow> a \<in> set (take n xs) \<Longrightarrow> b \<in> set (drop n xs) \<Longrightarrow> f a \<le> f b"
proof -
  assume s: "sorted (map f xs)" and a: "a \<in> set (take n xs)" and b: "b \<in> set (drop n xs)"
  have "sorted (map f (take n xs) @ map f (drop n xs))"
    using s by (simp flip: map_append)
  with a b show ?thesis by (auto simp: sorted_append)
qed


section \<open>Nearest POIs and counts\<close>

lemma map_of_dd_add:
  "map_of (dd_add k z w d) = (map_of d)(k \<mapsto> dict_get d k z + w)"
  by (simp add: dd_add_def map_of_dict_set)

lemma keys_dd_add:
  "map fst (dd_add k z w d) = (if k \<in> set (map fst d) then map fst d else map fst d @ [k])"
  by (simp add: dd_add_def dict_set_keys)

lemma distinct_dd_add: "distinct (map fst d) \<Longrightarrow> distinct (map fst (dd_add k z w d))"
  by (simp add: keys_dd_add)

lemma distinct_count_types:
  "distinct (map fst cnt) \<Longrightarrow> distinct (map fst (count_types xs cnt))"
  by (induction xs arbitrary: cnt) (auto simp: distinct_dd_add split: option.splits)

lemma map_of_count_types:
  "map_of (count_types xs cnt) t =
    (if length (filter (\<lambda>pd. primary_type (types (fst pd)) = Some t) xs) = 0 then map_of cnt t
     else Some (dict_get cnt t 0 + length (filter (\<lambda>pd. primary_type (types (fst pd)) = Some t) xs)))"
proof (induction xs arbitrary: cnt)
  case Nil
  then show ?case by simp
next
  case (Cons pd xs)
  show ?case
  proof (cases "primary_type (types (fst pd))")
    case None
    then show ?thesis by (simp add: Cons.IH)
  next
    case (Some u)
    then show ?thesis
      by (auto simp add: Cons.IH map_of_dd_add dict_get_def)
  qed
qed

lemma sum_dd_add_one:
  fixes d :: "('k \<times> nat) list"
  shows "sum_list (map snd (dd_add k 0 (Suc 0) d)) = Suc (sum_list (map snd d))"
  unfolding dd_add_def dict_get_def
  by (induction d) auto

lemma sum_count_types:
  "sum_list (map snd (count_types xs cnt)) =
    sum_list (map snd cnt) + length (filter (\<lambda>pd. primary_type (types (fst pd)) \<noteq> None) xs)"
proof (induction xs arbitrary: cnt)
  case Nil
  then show ?case by simp
next
  case (Cons pd xs)
  show ?case
  proof (cases "primary_type (types (fst pd))")
    case None
    then show ?thesis by (simp add: Cons.IH)
  next
    case (Some t)
    then show ?thesis by (simp add: Cons.IH sum_dd_add_one)
  qed
qed

lemma length_filter_sort_key:
  "length (filter P (sort_key f xs)) = length (filter P xs)"
proof -
  have "mset (filter P (sort_key f xs)) = mset (filter P xs)"
    by simp
  then show ?thesis by (rule mset_eq_length)
qed

lemma compute_profile_summary:
  "compute_profile gp nearby = Inr prof \<Longrightarrow>
    nearest (prof_poi_summary prof) = map nearest_entry_of (take 10 (sort_key snd nearby))
    \<and> counts (prof_poi_summary prof) = count_types (sort_key snd nearby) []"
  by (auto simp: compute_profile_def Let_def split: sum.splits)

lemma accumulate_succeeds:
  "(\<forall>pd \<in> set xs. \<forall>n. user_ratings_total (fst pd) = Some n \<longrightarrow> 0 \<le> n) \<Longrightarrow>
    \<exists>acc'. accumulate xs acc = Inr acc'"
proof (induction xs arbitrary: acc)
  case Nil
  then show ?case by simp
next
  case (Cons pd xs)
  from Cons.prems have "\<exists>pop. popularity_factor (user_ratings_total (fst pd)) = Inr pop"
    by (auto simp: popularity_factor_def split: option.splits)
  then obtain pop where "popularity_factor (user_ratings_total (fst pd)) = Inr pop" ..
  with Cons show ?case
    by (auto simp: Let_def split: option.splits)
qed

lemma compute_profile_succeeds:
  assumes "\<forall>pd \<in> set nearby. \<forall>n. user_ratings_total (fst pd) = Some n \<longrightarrow> 0 \<le> n"
  shows "\<exists>prof. compute_profile gp nearby = Inr prof"
proof -
  have "\<forall>pd \<in> set (sort_key snd nearby). \<forall>n. user_ratings_total (fst pd) = Some n \<longrightarrow> 0 \<le> n"
    using assms by simp
  from accumulate_succeeds [OF this]
  obtain acc' where "accumulate (sort_key snd nearby)
     \<lparr> age_scores = [], interest_scores = [], footfall_total = 0,
       total_influence = 0, landuse_scores = [] \<rparr> = Inr acc'"
    by blast
  then show ?thesis
    by (simp add: compute_profile_def Let_def)
qed


section \<open>Score dictionaries\<close>

lemma set_keys_dd_add: "fst ` set (dd_add k z w d) = insert k (fst ` set d)"
  using arg_cong [OF keys_dd_add [of k z w d], of set] by (auto simp del: set_map simp: set_map [symmetric])

lemma keys_fan_out:
  "fst ` set (fan_out w table scores) = fst ` set scores \<union> fst ` set table"
  unfolding fan_out_def
  by (induction table arbitrary: scores) (simp_all add: set_keys_dd_add)

lemma distinct_fan_out:
  "distinct (map fst scores) \<Longrightarrow> distinct (map fst (fan_out w table scores))"
  unfolding fan_out_def
  by (induction table arbitrary: scores) (simp_all add: distinct_dd_add)

lemma dict_get_in_table:
  "(\<forall>e \<in> set table. P (snd e)) \<Longrightarrow> P dflt \<Longrightarrow> P (dict_get table k dflt)"
proof (cases "map_of table k")
  case None
  then show "P dflt \<Longrightarrow> ?thesis" by (simp add: dict_get_def)
next
  case (Some v)
  then have "(k, v) \<in> set table" by (rule map_of_SomeD)
  then show "\<forall>e \<in> set table. P (snd e) \<Longrightarrow> ?thesis"
    using Some by (force simp: dict_get_def)
qed

lemma age_table_keys: "set (map fst (dict_get TYPE_TO_AGE_WEIGHTS t [])) \<subseteq> set AGE_BUCKETS"
  by (rule dict_get_in_table) (simp_all add: TYPE_TO_AGE_WEIGHTS_def AGE_BUCKETS_def)

lemma interest_table_keys:
  "set (map fst (dict_get TYPE_TO_INTEREST_WEIGHTS t [])) \<subseteq> set INTEREST_CATEGORIES"
  by (rule dict_get_in_table) (simp_all add: TYPE_TO_INTEREST_WEIGHTS_def INTEREST_CATEGORIES_def)

lemma accumulate_scores_ok:
  "accumulate xs acc = Inr acc' \<Longrightarrow> scores_ok acc \<Longrightarrow> scores_ok acc'"
proof (induction xs arbitrary: acc)
  case Nil
  then show ?case by simp
next
  case (Cons pd xs)
  show ?case
  proof (cases "primary_type (types (fst pd))")
    case None
    with Cons show ?thesis by simp
  next
    case (Some t)
    with Cons.prems(1) obtain pop where
      pop: "popularity_factor (user_ratings_total (fst pd)) = Inr pop"
      by (cases "popularity_factor (user_ratings_total (fst pd))") (simp_all add: Let_def)
    let ?w = "dict_get TYPE_IMPORTANCE t 1 * gaussian_decay (snd pd) SIGMA_M * pop"
    let ?acc = "\<lparr> age_scores = fan_out ?w (dict_get TYPE_TO_AGE_WEIGHTS t []) (age_scores acc),
        interest_scores =
          fan_out ?w (dict_get TYPE_TO_INTEREST_WEIGHTS t []) (interest_scores acc),
        footfall_total = footfall_total acc + pop * gaussian_decay (snd pd) SIGMA_M,
        total_influence = total_influence acc + ?w,
        landuse_scores = dd_add (dict_get TYPE_TO_LANDUSE t ''other'') 0 ?w (landuse_scores acc) \<rparr>"
    from Cons.prems(1) Some pop have "accumulate xs ?acc = Inr acc'"
      by (simp add: Let_def)
    moreover have "scores_ok ?acc"
      using Cons.prems(2) age_table_keys [of t] interest_table_keys [of t]
      unfolding scores_ok_def
      by (simp add: keys_fan_out distinct_fan_out)
    ultimately show ?thesis by (rule Cons.IH)
  qed
qed



lemma keys_dict_update:
  "fst ` set other \<subseteq> fst ` set d \<Longrightarrow> map fst (dict_update d other) = map fst d"
  unfolding dict_update_def
proof (induction other arbitrary: d)
  case Nil
  then show ?case by simp
next
  case (Cons kv other)
  have k: "map fst (dict_set (fst kv) (snd kv) d) = map fst d"
    using Cons.prems by (simp add: dict_set_keys)
  then have "fst ` set other \<subseteq> fst ` set (dict_set (fst kv) (snd kv) d)"
    using Cons.prems by (metis list.set_map insert_subset list.simps(15) image_insert)
  from Cons.IH [OF this] k show ?case by simp
qed

lemma map_of_dict_update:
  "distinct (map fst other) \<Longrightarrow>
   map_of (dict_update d other) k =
     (case map_of other k of None \<Rightarrow> map_of d k | Some v \<Rightarrow> Some v)"
  unfolding dict_update_def
proof (induction other arbitrary: d)
  case Nil
  then show ?case by simp
next
  case (Cons kv other)
  then have "fst kv \<notin> fst ` set other" by simp
  then have "map_of other (fst kv) = None"
    by (simp add: map_of_eq_None_iff)
  with Cons show ?case
    by (auto simp: map_of_dict_set split: option.splits)
qed

lemma sum_list_alist:
  "distinct (map fst xs) \<Longrightarrow>
   sum_list (map snd xs) = (\<Sum>k \<in> fst ` set xs. the (map_of xs k))"
proof (induction xs)
  case Nil
  then show ?case by simp
next
  case (Cons kv xs)
  then have notin: "fst kv \<notin> fst ` set xs" and d: "distinct (map fst xs)" by simp_all
  have "(\<Sum>k \<in> fst ` set (kv # xs). the (map_of (kv # xs) k)) =
      the (map_of (kv # xs) (fst kv)) + (\<Sum>k \<in> fst ` set xs. the (map_of (kv # xs) k))"
    using notin by simp
  also have "(\<Sum>k \<in> fst ` set xs. the (map_of (kv # xs) k)) =
      (\<Sum>k \<in> fst ` set xs. the (map_of xs k))"
  proof (intro sum.cong refl)
    fix k assume "k \<in> fst ` set xs"
    with notin have "k \<noteq> fst kv" by blast
    then show "the (map_of (kv # xs) k) = the (map_of xs k)" by (cases kv) simp
  qed
  finally show ?case using Cons.IH [OF d] by simp
qed

lemma sum_list_dict_update_zero:
  fixes other :: "(string \<times> real) list"
  assumes "distinct B" and "distinct (map fst other)" and "fst ` set other \<subseteq> set B"
  shows "sum_list (map snd (dict_update (map (\<lambda>b. (b, 0)) B) other)) = sum_list (map snd other)"
proof -
  let ?z = "map (\<lambda>b. (b, 0::real)) B"
  let ?f = "dict_update ?z other"
  have kz: "map fst ?z = B" by (simp add: comp_def)
  then have kz': "fst ` set ?z = set B" by (metis list.set_map)
  have kf: "map fst ?f = B"
    using keys_dict_update [of other ?z] assms(3) kz kz' by simp
  then have kf': "fst ` set ?f = set B" by (metis list.set_map)
  have mz: "map_of ?z k = (if k \<in> set B then Some 0 else None)" for k
    by (induction B) auto
  have "sum_list (map snd ?f) = (\<Sum>k \<in> set B. the (map_of ?f k))"
    using sum_list_alist [of ?f] kf kf' assms(1) by simp
  also have "\<dots> = (\<Sum>k \<in> set B. case map_of other k of None \<Rightarrow> 0 | Some v \<Rightarrow> v)"
    by (intro sum.cong refl) (simp add: map_of_dict_update [OF assms(2)] mz split: option.splits)
  also have "\<dots> = (\<Sum>k \<in> fst ` set other. case map_of other k of None \<Rightarrow> 0 | Some v \<Rightarrow> v)"
  proof (rule sum.mono_neutral_right)
    show "finite (set B)" by simp
    show "fst ` set other \<subseteq> set B" by (rule assms(3))
    show "\<forall>i\<in>set B - fst ` set other. (case map_of other i of None \<Rightarrow> 0 | Some v \<Rightarrow> v) = 0"
      by (auto simp: map_of_eq_None_iff [THEN iffD2])
  qed
  also have "\<dots> = (\<Sum>k \<in> fst ` set other. the (map_of other k))"
  proof (intro sum.cong refl)
    fix k assume "k \<in> fst ` set other"
    then have "map_of other k \<noteq> None" by (simp add: map_of_eq_None_iff)
    then show "(case map_of other k of None \<Rightarrow> 0 | Some v \<Rightarrow> v) = the (map_of other k)"
      by (auto split: option.splits)
  qed
  also have "\<dots> = sum_list (map snd other)"
    using sum_list_alist [OF assms(2)] by simp
  finally show ?thesis .
qed

lemma values_dict_set_zero:
  "\<forall>kv \<in> set d. snd kv = (0::real) \<Longrightarrow> v = 0 \<Longrightarrow> \<forall>kv \<in> set (dict_set k v d). snd kv = 0"
proof (induction d)
  case Nil
  then show ?case by simp
next
  case (Cons p ps)
  from Cons.prems have p: "snd p = 0" and ps: "\<forall>kv \<in> set ps. snd kv = 0" by simp_all
  note ih = Cons.IH [OF ps Cons.prems(2)]
  show ?case
  proof (cases "fst p = k")
    case True
    have "dict_set k v (p # ps) = (k, v) # ps" using True by simp
    then show ?thesis using ps Cons.prems(2) by simp
  next
    case False
    have "dict_set k v (p # ps) = p # dict_set k v ps" using False by simp
    then show ?thesis using ih p by simp
  qed
qed



lemma values_fold_dict_set_zero:
  "\<forall>kv \<in> set other. snd kv = (0::real) \<Longrightarrow> \<forall>kv \<in> set d. snd kv = 0 \<Longrightarrow>
   \<forall>kv \<in> set (fold (\<lambda>kv d'. dict_set (fst kv) (snd kv) d') other d). snd kv = 0"
proof (induction other arbitrary: d)
  case Nil
  then show ?case by simp
next
  case (Cons e other)
  have e: "snd e = 0" using Cons.prems(1) by simp
  have o: "\<forall>kv \<in> set other. snd kv = 0" using Cons.prems(1) by simp
  have "\<forall>kv \<in> set (dict_set (fst e) (snd e) d). snd kv = 0"
    using Cons.prems(2) e by (rule values_dict_set_zero)
  note step = Cons.IH [OF o this]
  have unroll: "fold (\<lambda>kv d'. dict_set (fst kv) (snd kv) d') (e # other) d =
      fold (\<lambda>kv d'. dict_set (fst kv) (snd kv) d') other (dict_set (fst e) (snd e) d)"
    by simp
  show ?case unfolding unroll by (rule step)
qed



lemma values_dict_update_zero:
  "\<forall>kv \<in> set other. snd kv = (0::real) \<Longrightarrow> \<forall>kv \<in> set d. snd kv = 0 \<Longrightarrow>
   \<forall>kv \<in> set (dict_update d other). snd kv = 0"
  unfolding dict_update_def by (rule values_fold_dict_set_zero)


lemma py_round_error: "\<bar>py_round x 2 - x\<bar> \<le> 0.005"
proof -
  have "\<bar>of_int (round_half_even (x * 100)) - x * 100\<bar> \<le> 1 / 2"
    using round_half_even_bounds [of "x * 100"] by linarith
  then have "\<bar>(of_int (round_half_even (x * 100)) - x * 100) / 100\<bar> \<le> (1 / 2) / 100"
    by (simp del: of_int_diff)
  then show ?thesis
    by (simp add: py_round_def field_simps)
qed

lemma sum_rounded:
  "\<bar>sum_list (map (\<lambda>v. py_round (v / t) 2) vs) - sum_list vs / t\<bar> \<le> real (length vs) * 0.005"
proof (induction vs)
  case Nil
  then show ?case by simp
next
  case (Cons v vs)
  let ?S = "sum_list (map (\<lambda>v. py_round (v / t) 2) vs)"
  have 1: "\<bar>py_round (v / t) 2 - v / t\<bar> \<le> 0.005" by (rule py_round_error)
  have 2: "\<bar>?S - sum_list vs / t\<bar> \<le> real (length vs) * 0.005" by (rule Cons.IH)
  have "\<bar>(py_round (v / t) 2 + ?S) - (v / t + sum_list vs / t)\<bar>
      \<le> \<bar>py_round (v / t) 2 - v / t\<bar> + \<bar>?S - sum_list vs / t\<bar>"
    by linarith
  also have "\<dots> \<le> 0.005 + real (length vs) * 0.005"
    using 1 2 by (rule add_mono)
  finally show ?case
    by (simp add: add_divide_distrib algebra_simps)
qed

lemma keys_normalize: "map fst (normalize scores) = map fst scores"
  by (simp add: normalize_def Let_def comp_def)

lemma normalize_sum:
  "\<bar>sum_list (map snd (normalize scores)) - 1\<bar> \<le> real (length scores) * 0.005
   \<or> (\<forall>kv \<in> set (normalize scores). snd kv = 0)"
proof (cases "sum_list (map snd scores) = 0")
  case True
  then show ?thesis by (auto simp: normalize_def)
next
  case False
  let ?t = "sum_list (map snd scores)"
  have "map snd (normalize scores) = map (\<lambda>v. py_round (v / ?t) 2) (map snd scores)"
    using False by (simp add: normalize_def Let_def comp_def)
  moreover have "?t / ?t = 1" using False by simp
  ultimately show ?thesis
    using sum_rounded [of ?t "map snd scores"] by simp
qed


lemma compute_profile_audience:
  assumes "compute_profile gp nearby = Inr prof"
  shows "\<exists>acc. scores_ok acc
    \<and> age_profile (prof_audience prof) =
        dict_update (zero_dict AGE_BUCKETS) (normalize (age_scores acc))
    \<and> interests (prof_audience prof) =
        dict_update (zero_dict INTEREST_CATEGORIES) (normalize (interest_scores acc))"
proof -
  let ?init = "\<lparr> age_scores = [], interest_scores = [], footfall_total = 0,
                 total_influence = 0, landuse_scores = [] \<rparr>"
  from assms obtain acc where acc: "accumulate (sort_key snd nearby) ?init = Inr acc"
    by (cases "accumulate (sort_key snd nearby) ?init") (simp_all add: compute_profile_def Let_def)
  have "scores_ok ?init" by (simp add: scores_ok_def)
  with acc have "scores_ok acc" by (rule accumulate_scores_ok)
  moreover from assms acc have "age_profile (prof_audience prof) =
        dict_update (zero_dict AGE_BUCKETS) (normalize (age_scores acc))"
    by (auto simp add: compute_profile_def Let_def)
  moreover from assms acc have "interests (prof_audience prof) =
        dict_update (zero_dict INTEREST_CATEGORIES) (normalize (interest_scores acc))"
    by (auto simp add: compute_profile_def Let_def)
  ultimately show ?thesis by blast
qed

lemma distribution_over_universe:
  fixes scores :: "(string \<times> real) list"
  assumes "distinct B" and "distinct (map fst scores)" and "fst ` set scores \<subseteq> set B"
  defines "final \<equiv> dict_update (map (\<lambda>b. (b, 0)) B) (normalize scores)"
  shows "map fst final = B
    \<and> (\<bar>sum_list (map snd final) - 1\<bar> \<le> real (length B) * 0.005
        \<or> (\<forall>kv \<in> set final. snd kv = 0))"
proof -
  let ?z = "map (\<lambda>b. (b, 0::real)) B"
  have kn: "map fst (normalize scores) = map fst scores" by (rule keys_normalize)
  then have kn': "fst ` set (normalize scores) = fst ` set scores"
    by (metis list.set_map)
  have kz: "fst ` set ?z = set B" by (simp add: image_image)
  have keys: "map fst final = B"
    unfolding final_def using keys_dict_update [of "normalize scores" ?z] assms(3) kn' kz
    by (simp add: comp_def)
  have "length scores = card (fst ` set scores)"
    using assms(2) by (metis distinct_card length_map list.set_map)
  also have "\<dots> \<le> card (set B)"
    using assms(3) by (intro card_mono) simp_all
  also have "\<dots> = length B" using assms(1) by (rule distinct_card)
  finally have len: "real (length scores) * 0.005 \<le> real (length B) * 0.005" by simp
  from normalize_sum [of scores]
  have "\<bar>sum_list (map snd final) - 1\<bar> \<le> real (length B) * 0.005
        \<or> (\<forall>kv \<in> set final. snd kv = 0)"
  proof
    assume a: "\<bar>sum_list (map snd (normalize scores)) - 1\<bar> \<le> real (length scores) * 0.005"
    have "sum_list (map snd final) = sum_list (map snd (normalize scores))"
      unfolding final_def
      using assms(1,2,3) kn kn' by (intro sum_list_dict_update_zero) simp_all
    with a len show ?thesis by linarith
  next
    assume a: "\<forall>kv \<in> set (normalize scores). snd kv = 0"
    have z: "\<forall>kv \<in> set ?z. snd kv = 0"
      by (induction B) simp_all
    have "\<forall>kv \<in> set final. snd kv = 0"
      unfolding final_def using a z by (rule values_dict_update_zero)
    then show ?thesis ..
  qed
  with keys show ?thesis ..
qed


section \<open>Confidence of a single POI\<close>

lemma popularity_factor_ge_1: "popularity_factor r = Inr pop \<Longrightarrow> 1 \<le> pop"
  by (auto simp: popularity_factor_def split: option.splits if_splits)

lemma single_poi_confidence:
  assumes "compute_profile gp [(p, d)] = Inr prof" and "primary_type (types p) = Some t"
  shows "\<exists>pop. popularity_factor (user_ratings_total p) = Inr pop
    \<and> confidence (prof_audience prof) =
        (let w = dict_get TYPE_IMPORTANCE t 1 * gaussian_decay d SIGMA_M * pop
         in if 0 < w then py_round (min 1 (w / 15)) 2 else 0)"
proof (cases "popularity_factor (user_ratings_total p)")
  case (Inl e)
  with assms show ?thesis by (simp add: compute_profile_def Let_def)
next
  case (Inr pop)
  with assms show ?thesis by (auto simp add: compute_profile_def Let_def)
qed

lemma importance_bounds:
  "primary_type ts = Some t \<Longrightarrow>
    0.7 \<le> dict_get TYPE_IMPORTANCE t 1 \<and> dict_get TYPE_IMPORTANCE t 1 \<le> 1.7"
  by (rule dict_get_in_table) (simp_all add: TYPE_IMPORTANCE_def)

lemma decay_50: "gaussian_decay 50 SIGMA_M = exp (- (1 / 32))"
  by (simp add: gaussian_decay_def SIGMA_M_def)

lemma decay_800: "gaussian_decay 800 SIGMA_M = exp (- 8)"
  by (simp add: gaussian_decay_def SIGMA_M_def)

lemma decay_50_lower: "31 / 32 \<le> exp (- (1 / 32) :: real)"
  using exp_ge_add_one_self [of "- (1 / 32) :: real"] by simp

lemma decay_ratio: "exp (- 8 :: real) \<le> exp (- (1 / 32)) / 250"
proof -
  have "(250::real) \<le> (1 + (255 / 32) / real 8) ^ 8" by (simp add: power_divide)
  also have "\<dots> \<le> exp (255 / 32)"
    by (rule exp_ge_one_plus_x_over_n_power_n) simp_all
  finally have "(250::real) \<le> exp (255 / 32)" .
  moreover have "exp (- (1 / 32) :: real) = exp (- 8) * exp (255 / 32)"
    by (simp add: exp_add [symmetric])
  ultimately have "exp (- 8 :: real) * 250 \<le> exp (- (1 / 32))"
    by (simp add: mult_left_mono)
  then show ?thesis by (simp add: field_simps)
qed

lemma exp_8_bounds: "exp (- 8 :: real) \<le> 1 / 256 \<and> 1 / 6561 \<le> exp (- 8 :: real)"
proof -
  have e: "exp (8::real) = exp 1 ^ 8"
    using exp_of_nat_mult [of 8 "1::real"] by simp
  have "(2::real) \<le> exp 1" using exp_ge_add_one_self [of "1::real"] by simp
  then have "(2::real) ^ 8 \<le> exp 1 ^ 8" by (rule power_mono) simp
  then have lo: "(256::real) \<le> exp 8" by (simp add: e)
  have "exp (1::real) ^ 8 \<le> 3 ^ 8" by (rule power_mono [OF exp_le]) simp
  then have hi: "exp (8::real) \<le> 6561" by (simp add: e)
  have m: "exp (- 8 :: real) = 1 / exp 8" by (rule exp_minus')
  from lo hi show ?thesis unfolding m
    by (auto simp: field_simps intro!: divide_left_mono)
qed

lemma py_round_small: "0 \<le> x \<Longrightarrow> x < 0.005 \<Longrightarrow> py_round x 2 = 0"
proof -
  assume "0 \<le> x" "x < 0.005"
  then have "0 \<le> x * 100" "x * 100 < 1 / 2" by simp_all
  then have f: "\<lfloor>x * 100\<rfloor> = 0" by linarith
  with \<open>x * 100 < 1 / 2\<close> have "round_half_even (x * 100) = 0"
    by (simp add: round_half_even_def Let_def)
  then show ?thesis by (simp add: py_round_def)
qed

lemma py_round_1: "py_round 1 2 = 1"
  by (simp add: py_round_def round_half_even_def)

lemma py_round_pos: "0.01 \<le> x \<Longrightarrow> 0.01 \<le> py_round x 2"
proof -
  assume "0.01 \<le> x"
  then have "py_round 0.01 2 \<le> py_round x 2" by (rule py_round_mono)
  moreover have "py_round 0.01 2 = 0.01" by (simp add: py_round_def round_half_even_def)
  ultimately show ?thesis by simp
qed


lemma popularity_factor_int64:
  assumes "popularity_factor r = Inr pop"
    and "case r of None \<Rightarrow> True | Some n \<Rightarrow> n < 2 ^ 63"
  shows "pop \<le> 64"
proof (cases r)
  case None
  with assms show ?thesis by (simp add: popularity_factor_def)
next
  case (Some n)
  show ?thesis
  proof (cases "n = 0")
    case True
    with assms Some show ?thesis by (simp add: popularity_factor_def)
  next
    case False
    with assms Some have pos: "0 < 1 + n" and pop: "pop = 1 + ln (real_of_int (1 + n))"
      and le: "1 + n \<le> 2 ^ 63"
      by (simp_all add: popularity_factor_def split: if_splits)
    define P :: real where "P = 2 ^ 63"
    from le have "real_of_int (1 + n) \<le> real_of_int (2 ^ 63)" by (simp only: of_int_le_iff)
    also have "real_of_int (2 ^ 63) = P" by (simp add: P_def)
    finally have "real_of_int (1 + n) \<le> P" .
    moreover from pos have "0 < real_of_int (1 + n)" by simp
    ultimately have "ln (real_of_int (1 + n)) \<le> ln P"
      by (rule ln_mono)
    also have "ln P = real 63 * ln 2" unfolding P_def by (rule ln_realpow)
    also have "\<dots> \<le> 63 * 1"
      using ln_le_minus_one [of "2::real"] by simp
    finally show ?thesis by (simp add: pop)
  qed
qed

lemma confidence_compare:
  fixes imp pop a b :: real
  assumes imp: "0.7 \<le> imp" "imp \<le> 1.7" and pop: "1 \<le> pop"
    and a: "31 / 32 \<le> a" and b: "0 < b" "b \<le> a / 250" "b \<le> 1 / 256"
  defines "cn \<equiv> py_round (min 1 (imp * a * pop / 15)) 2"
    and "cf \<equiv> py_round (min 1 (imp * b * pop / 15)) 2"
  shows "cf \<le> cn \<and> (cf < 1 \<longrightarrow> cf < cn) \<and> (pop \<le> 64 \<longrightarrow> cf < cn)"
proof -
  define wn where "wn = imp * a * pop"
  define wf where "wf = imp * b * pop"
  have cn: "cn = py_round (min 1 (wn / 15)) 2" and cf: "cf = py_round (min 1 (wf / 15)) 2"
    by (simp_all add: cn_def cf_def wn_def wf_def)
  have ip: "0 < imp * pop" using imp pop by (intro mult_pos_pos) simp_all
  have wf': "wf = b * (imp * pop)" and wn': "wn = a * (imp * pop)"
    by (simp_all add: wf_def wn_def)
  have "b * (imp * pop) \<le> a / 250 * (imp * pop)"
    using b(2) ip by (intro mult_right_mono) simp_all
  then have r: "wf \<le> wn / 250" by (simp add: wf' wn')
  have fpos: "0 < wf" unfolding wf' using b(1) ip by (rule mult_pos_pos)
  have le: "wf \<le> wn" using r fpos by linarith
  have "min 1 (wf / 15) \<le> min 1 (wn / 15)" using le by (intro min.mono divide_right_mono) simp_all
  then have mono: "cf \<le> cn" unfolding cn cf by (rule py_round_mono)
  have low: "1 / 100 \<le> wn / 15"
  proof -
    have ia: "0.7 * (31 / 32) \<le> imp * a" using imp(1) a by (intro mult_mono) simp_all
    then have "0 \<le> imp * a" by simp
    with ia pop have "0.7 * (31 / 32) * 1 \<le> imp * a * pop" by (rule_tac mult_mono) simp_all
    then show ?thesis by (simp add: wn_def)
  qed
  have strict: "cf < cn" if "cf < 1"
  proof (cases "1 \<le> wn / 15")
    case True
    then have "min 1 (wn / 15) = 1" by (rule min_absorb1)
    then have "cn = 1" by (simp add: cn py_round_1)
    with that show ?thesis by simp
  next
    case False
    then have "wn < 15" by simp
    with r have "wf < 15 / 250" by linarith
    then have s: "wf / 15 < 1 / 200" by linarith
    have nn: "0 \<le> wf / 15" using fpos by simp
    have "wf / 15 \<le> 1" using s by linarith
    then have m: "min 1 (wf / 15) = wf / 15" by (rule min_absorb2)
    have "(1 / 200 :: real) = 0.005" by simp
    with s have "wf / 15 < 0.005" by (simp only:)
    with nn have "py_round (wf / 15) 2 = 0" by (rule py_round_small)
    then have z: "cf = 0" by (simp only: cf m)
    from False have "wn / 15 \<le> 1" by simp
    then have "min 1 (wn / 15) = wn / 15" by (rule min_absorb2)
    moreover have "(0.01::real) = 1 / 100" by simp
    ultimately have "0.01 \<le> min 1 (wn / 15)" using low by (simp only:)
    then have "0.01 \<le> cn" unfolding cn by (rule py_round_pos)
    with z show ?thesis by simp
  qed
  have bounded: "cf < 1" if "pop \<le> 64"
  proof -
    have "imp * b \<le> 1.7 * (1 / 256)" using imp b by (intro mult_mono) simp_all
    then have "imp * b * pop \<le> 1.7 * (1 / 256) * 64"
      using that pop imp b by (rule_tac mult_mono) simp_all
    then have "wf \<le> 17 / 40" unfolding wf_def by simp
    then have "wf / 15 \<le> 3 / 100" by linarith
    then have "min 1 (wf / 15) \<le> 3 / 100" by (simp add: min_le_iff_disj)
    moreover have "(3 / 100 :: real) = 0.03" by simp
    ultimately have "min 1 (wf / 15) \<le> 0.03" by (simp only:)
    then have "cf \<le> py_round 0.03 2" unfolding cf by (rule py_round_mono)
    also have "py_round 0.03 2 = 0.03" by (simp add: py_round_def round_half_even_def)
    finally show ?thesis by simp
  qed
  from mono strict bounded show ?thesis by blast
qed


lemma single_poi_result_confidence:
  assumes "primary_type (types p) = Some t"
    and "popularity_factor (user_ratings_total p) = Inr pop"
  shows "result_confidence (compute_profile gp [(p, d)]) =
    Some (let w = dict_get TYPE_IMPORTANCE t 1 * gaussian_decay d SIGMA_M * pop
          in if 0 < w then py_round (min 1 (w / 15)) 2 else 0)"
  using assms by (simp add: compute_profile_def result_confidence_def Let_def)

lemma ln_pow10: "2 * real k \<le> ln (real_of_int (1 + 10 ^ k))"
proof -
  have "exp (2::real) = exp 1 ^ 2" using exp_of_nat_mult [of 2 "1::real"] by simp
  also have "\<dots> \<le> 3 ^ 2" by (rule power_mono [OF exp_le]) simp
  finally have "exp (2::real) \<le> 10" by simp
  then have l10: "2 \<le> ln (10::real)" by (simp add: ln_ge_iff)
  have "2 * real k \<le> real k * ln 10" using l10 by (simp add: mult_left_mono mult.commute)
  also have "\<dots> = ln ((10::real) ^ k)" by (simp add: ln_realpow)
  also have "\<dots> \<le> ln (1 + (10::real) ^ k)" by (intro ln_mono) simp_all
  also have "1 + (10::real) ^ k = real_of_int (1 + 10 ^ k)" by simp
  finally show ?thesis .
qed

lemma huge_reviews_pos: "0 < huge_reviews"
  unfolding huge_reviews_def by (rule zero_less_power) simp

lemma huge_reviews_ln: "200000 \<le> ln (real_of_int (1 + huge_reviews))"
proof -
  have a: "(200000::real) = 2 * real (100000::nat)" by simp
  show ?thesis unfolding huge_reviews_def a by (rule ln_pow10)
qed

lemma saturated: "15 \<le> w \<Longrightarrow> (if 0 < w then py_round (min 1 (w / 15)) 2 else 0) = 1"
proof -
  assume w: "15 \<le> (w::real)"
  then have "1 \<le> w / 15" by simp
  then have "min 1 (w / 15) = 1" by (rule min_absorb1)
  with w show ?thesis by (simp add: py_round_1)
qed


section \<open>Small angles\<close>

lemma pi_ge_3: "3 \<le> pi"
proof -
  have "sin (pi / 6) \<le> pi / 6" by (rule sin_x_le_x) simp
  then show ?thesis by (simp add: sin_30)
qed

lemma sin_lower:
  fixes x :: real
  assumes "0 \<le> x"
  shows "x - x ^ 3 / 6 \<le> sin x"
proof -
  have s: "(\<Sum>m<3. sin_coeff m * x ^ m) = x"
    by (simp add: sin_coeff_def numeral_3_eq_3)
  from Maclaurin_sin_bound [of x 3] have "\<bar>sin x - x\<bar> \<le> inverse (fact 3) * \<bar>x\<bar> ^ 3"
    unfolding s .
  moreover have "inverse (fact 3) * \<bar>x\<bar> ^ 3 = x ^ 3 / 6"
    using assms by (simp add: fact_numeral)
  ultimately show ?thesis by linarith
qed

lemma sin_small_lower:
  fixes x :: real
  assumes "0 \<le> x" and "x \<le> 1 / 2"
  shows "(23 / 24) * x \<le> sin x"
proof -
  have "x * x \<le> (1 / 2) * (1 / 2)" using assms by (intro mult_mono) simp_all
  then have "x * (x * x) \<le> x * ((1 / 2) * (1 / 2))" using assms(1) by (rule mult_left_mono)
  then have "x ^ 3 \<le> x / 4" by (simp add: power3_eq_cube mult.assoc)
  with sin_lower [OF assms(1)] show ?thesis by linarith
qed

lemma sin_tiny_lower:
  fixes x :: real
  assumes "0 \<le> x" and "x \<le> 1 / 50"
  shows "(100 / 101) * x \<le> sin x"
proof -
  have "x * x \<le> (1 / 50) * (1 / 50)" using assms by (intro mult_mono) simp_all
  then have "x * (x * x) \<le> x * ((1 / 50) * (1 / 50))" using assms(1) by (rule mult_left_mono)
  then have "x ^ 3 \<le> x / 2500" by (simp add: power3_eq_cube mult.assoc)
  with sin_lower [OF assms(1)] assms(1) show ?thesis by linarith
qed

text \<open>A small sine, away from the other zeros of the sine, comes from a small angle.\<close>

lemma small_sine:
  fixes x e :: real
  assumes e: "0 \<le> e" "e \<le> 1 / 100"
    and x: "\<bar>x\<bar> \<le> pi - 1 / 2"
    and s: "\<bar>sin x\<bar> \<le> e"
  shows "\<bar>x\<bar> \<le> (101 / 100) * e"
proof (rule ccontr)
  assume "\<not> \<bar>x\<bar> \<le> (101 / 100) * e"
  then have big: "(101 / 100) * e < \<bar>x\<bar>" by simp
  define y where "y = \<bar>x\<bar>"
  define d where "d = (101 / 100) * e"
  have y0: "0 \<le> y" and yd: "d < y" and ypi: "y \<le> pi - 1 / 2"
    using big x by (simp_all add: y_def d_def)
  have d0: "0 \<le> d" and d1: "d \<le> 1 / 50" using e by (simp_all add: d_def)
  have "sin y = \<bar>sin x\<bar>"
  proof (cases "0 \<le> x")
    case True
    then have "y = x" by (simp add: y_def)
    moreover have "0 \<le> sin x" using True x pi_ge_3 by (intro sin_ge_zero) simp_all
    ultimately show ?thesis by simp
  next
    case False
    then have yx: "y = - x" by (simp add: y_def)
    have "0 \<le> sin (- x)" using False x pi_ge_3 by (intro sin_ge_zero) simp_all
    then show ?thesis unfolding yx by simp
  qed
  with s have sy: "sin y \<le> e" by simp
  have sd: "e \<le> sin d"
  proof -
    have "(100 / 101) * d \<le> sin d" using d0 d1 by (rule sin_tiny_lower)
    moreover have "e = (100 / 101) * d" by (simp add: d_def)
    ultimately show ?thesis by simp
  qed
  have half: "(1 / 100 :: real) < sin (1 / 2)"
    using sin_small_lower [of "1 / 2"] by simp
  show False
  proof (cases "y \<le> pi / 2")
    case True
    have "sin d < sin y"
      using d0 yd True pi_ge_3 by (intro sin_monotone_2pi) simp_all
    with sy sd show False by simp
  next
    case False
    have "sin (1 / 2) \<le> sin (pi - y)"
      using False ypi pi_ge_3 by (intro sin_monotone_2pi_le) simp_all
    then have "sin (1 / 2) \<le> sin y" by simp
    with half sy e show False by simp
  qed
qed

lemma arcsin_small:
  fixes t :: real
  assumes "0 \<le> t" and "t \<le> 1 / 100"
  shows "0 \<le> arcsin t \<and> arcsin t \<le> (101 / 100) * t"
proof -
  have t1: "- 1 \<le> t" "t \<le> 1" using assms by simp_all
  have b: "- (pi / 2) \<le> arcsin t" "arcsin t \<le> pi / 2" "sin (arcsin t) = t"
    using arcsin [OF t1] by simp_all
  have "arcsin 0 \<le> arcsin t" using assms by (intro arcsin_le_arcsin) simp_all
  then have nn: "0 \<le> arcsin t" by simp
  have "\<bar>arcsin t\<bar> \<le> pi - 1 / 2" using b pi_ge_3 by simp
  moreover have "\<bar>sin (arcsin t)\<bar> \<le> t" using b(3) assms by simp
  ultimately have "\<bar>arcsin t\<bar> \<le> (101 / 100) * t"
    using assms by (intro small_sine) simp_all
  with nn show ?thesis by simp
qed


section \<open>The haversine distance\<close>

lemma radians_bounds: "\<bar>x\<bar> \<le> 90 \<Longrightarrow> - (pi / 2) \<le> radians x \<and> radians x \<le> pi / 2"
proof -
  assume a: "\<bar>x\<bar> \<le> 90"
  have "\<bar>x\<bar> * pi \<le> 90 * pi" using a by (intro mult_right_mono) simp_all
  then have "\<bar>x * pi\<bar> \<le> 90 * pi" by (simp add: abs_mult)
  then show ?thesis by (simp add: radians_def abs_le_iff)
qed

lemma radians_diff: "radians (x - y) = radians x - radians y"
  by (simp add: radians_def diff_divide_distrib left_diff_distrib)

lemma sin_half_squared: "(sin (x / 2))\<^sup>2 = (1 - cos x) / 2" for x :: real
  using cos_double_sin [of "x / 2"] by simp

lemma hav_a_bounds:
  fixes p1 p2 l :: real
  assumes "0 \<le> cos p1" "0 \<le> cos p2"
  defines "a \<equiv> (sin ((p2 - p1) / 2))\<^sup>2 + cos p1 * cos p2 * (sin (l / 2))\<^sup>2"
  shows "0 \<le> a \<and> a \<le> 1"
proof -
  have c: "0 \<le> cos p1 * cos p2" using assms(1,2) by simp
  have s1: "(sin (l / 2))\<^sup>2 \<le> 1"
    using abs_sin_le_one [of "l / 2"] by (simp add: abs_square_le_1)
  have nn: "0 \<le> a" unfolding a_def using c by simp
  have "cos p1 * cos p2 * (sin (l / 2))\<^sup>2 \<le> cos p1 * cos p2 * 1"
    using c s1 by (rule mult_left_mono [rotated])
  then have "a \<le> (1 - cos (p2 - p1)) / 2 + cos p1 * cos p2"
    unfolding a_def sin_half_squared by simp
  also have "cos p1 * cos p2 = (cos (p1 - p2) + cos (p1 + p2)) / 2" by (rule cos_times_cos)
  also have "cos (p1 - p2) = cos (p2 - p1)" using cos_minus [of "p2 - p1"] by simp
  finally have "a \<le> (1 + cos (p1 + p2)) / 2" by (simp add: field_simps)
  also have "\<dots> \<le> 1" using cos_le_one [of "p1 + p2"] by simp
  finally show ?thesis using nn by simp
qed

lemma haversine_value:
  fixes lat1 lon1 lat2 lon2 :: real
  assumes "\<bar>lat1\<bar> \<le> 90" and "\<bar>lat2\<bar> \<le> 90"
  defines "a \<equiv> (sin (radians (lat2 - lat1) / 2))\<^sup>2
      + cos (radians lat1) * cos (radians lat2) * (sin (radians (lon2 - lon1) / 2))\<^sup>2"
  shows "0 \<le> a \<and> a \<le> 1 \<and> haversine lat1 lon1 lat2 lon2 = Inr (2 * R * arcsin (sqrt a))"
proof -
  have c1: "0 \<le> cos (radians lat1)"
    using radians_bounds [OF assms(1)] by (intro cos_ge_zero) simp_all
  have c2: "0 \<le> cos (radians lat2)"
    using radians_bounds [OF assms(2)] by (intro cos_ge_zero) simp_all
  have b: "0 \<le> a \<and> a \<le> 1"
    unfolding a_def radians_diff [of lat2 lat1] using c1 c2 by (rule hav_a_bounds)
  then have "\<not> a < 0" and "\<not> 1 < sqrt a" by simp_all
  then have "haversine lat1 lon1 lat2 lon2 = Inr (2 * R * arcsin (sqrt a))"
    unfolding haversine_def Let_def a_def by simp
  with b show ?thesis by simp
qed




lemma sqrt3_lower: "(433 / 500 :: real) \<le> sqrt 3 / 2"
proof -
  have "(433 / 250 :: real) \<le> sqrt 3" by (rule real_le_rsqrt) (simp add: power2_eq_square)
  then show ?thesis by simp
qed

lemma cos_low_latitude:
  fixes x :: real
  assumes "0 \<le> x" and "x \<le> 30"
  shows "433 / 500 \<le> cos (radians x)"
proof -
  have "0 \<le> radians x" using assms(1) by (simp add: radians_def)
  moreover have "radians x \<le> pi / 6" using assms(2) by (simp add: radians_def)
  moreover have "pi / 6 \<le> pi" by simp
  ultimately have "cos (pi / 6) \<le> cos (radians x)" by (rule cos_monotone_0_pi_le)
  with sqrt3_lower show ?thesis by (simp add: cos_30)
qed

lemma cos_radians_mono:
  fixes x y :: real
  assumes "0 \<le> x" and "x \<le> y" and "y \<le> 180"
  shows "cos (radians y) \<le> cos (radians x)"
proof -
  have "0 \<le> radians x" using assms(1) by (simp add: radians_def)
  moreover have "radians x \<le> radians y" using assms(2) by (simp add: radians_def)
  moreover have "radians y \<le> pi" using assms(3) by (simp add: radians_def)
  ultimately show ?thesis by (rule cos_monotone_0_pi_le)
qed











section \<open>The lattice of tile centers\<close>

declare tile_row.simps [simp del] tile_rows.simps [simp del]

lemma spacing_pos: "0 < spacing"
  by (simp add: spacing_def tile_radius_def MAX_INFLUENCE_M_def)

lemma cos_south: "433 / 500 \<le> cos (radians BBOX_SOUTH)"
  unfolding BBOX_SOUTH_def by (intro cos_low_latitude) simp_all

lemma offset_point_south:
  "offset_point BBOX_SOUTH BBOX_WEST x y =
    Inr (BBOX_SOUTH + (y / R) * (180 / pi),
         BBOX_WEST + (x / (R * cos (radians BBOX_SOUTH))) * (180 / pi))"
proof -
  have "R * cos (radians BBOX_SOUTH) \<noteq> 0" using cos_south by (simp add: R_def)
  then show ?thesis by (simp add: offset_point_def)
qed

lemma tile_row_lattice:
  "\<exists>cs'. tile_row x_max y x cs = Inr cs' \<and> set cs \<subseteq> set cs'
    \<and> (\<forall>i::nat. x + real i * spacing \<le> x_max \<longrightarrow>
          (BBOX_SOUTH + (y / R) * (180 / pi),
           BBOX_WEST + ((x + real i * spacing) / (R * cos (radians BBOX_SOUTH))) * (180 / pi))
          \<in> set cs')"
proof (induction x_max y x cs rule: tile_row.induct)
  case (1 x_max y x cs)
  let ?c = "\<lambda>x. (BBOX_SOUTH + (y / R) * (180 / pi),
           BBOX_WEST + (x / (R * cos (radians BBOX_SOUTH))) * (180 / pi))"
  show ?case
  proof (cases "x \<le> x_max")
    case False
    have "\<not> x + real i * spacing \<le> x_max" for i :: nat
    proof -
      have "0 \<le> real i * spacing" using spacing_pos by simp
      with False show ?thesis by linarith
    qed
    moreover have "tile_row x_max y x cs = Inr cs"
      using False by (subst tile_row.simps) simp
    ultimately show ?thesis by simp
  next
    case True
    have step: "tile_row x_max y x cs = tile_row x_max y (x + spacing) (cs @ [?c x])"
      using True by (subst tile_row.simps) (simp add: offset_point_south)
    from "1.IH" [OF True offset_point_south]
    obtain cs' where r: "tile_row x_max y (x + spacing) (cs @ [?c x]) = Inr cs'"
      and sub: "set (cs @ [?c x]) \<subseteq> set cs'"
      and lat: "\<forall>i::nat. x + spacing + real i * spacing \<le> x_max \<longrightarrow>
          ?c (x + spacing + real i * spacing) \<in> set cs'"
      by blast
    have "?c (x + real i * spacing) \<in> set cs'" if "x + real i * spacing \<le> x_max" for i :: nat
    proof (cases i)
      case 0
      then show ?thesis using sub by simp
    next
      case (Suc j)
      then have e: "x + real i * spacing = x + spacing + real j * spacing"
        by (simp add: algebra_simps)
      from that have "x + spacing + real j * spacing \<le> x_max" unfolding e .
      from lat [rule_format, OF this] show ?thesis unfolding e .
    qed
    with step r sub show ?thesis by simp
  qed
qed

lemma tile_rows_lattice:
  "\<exists>cs'. tile_rows x_min x_max y_max y cs = Inr cs' \<and> set cs \<subseteq> set cs'
    \<and> (\<forall>j i::nat. y + real j * spacing \<le> y_max \<and> x_min + real i * spacing \<le> x_max \<longrightarrow>
          (BBOX_SOUTH + ((y + real j * spacing) / R) * (180 / pi),
           BBOX_WEST + ((x_min + real i * spacing) / (R * cos (radians BBOX_SOUTH))) * (180 / pi))
          \<in> set cs')"
proof (induction x_min x_max y_max y cs rule: tile_rows.induct)
  case (1 x_min x_max y_max y cs)
  let ?c = "\<lambda>x y. (BBOX_SOUTH + (y / R) * (180 / pi),
           BBOX_WEST + (x / (R * cos (radians BBOX_SOUTH))) * (180 / pi))"
  show ?case
  proof (cases "y \<le> y_max")
    case False
    have "\<not> y + real j * spacing \<le> y_max" for j :: nat
    proof -
      have "0 \<le> real j * spacing" using spacing_pos by simp
      with False show ?thesis by linarith
    qed
    moreover have "tile_rows x_min x_max y_max y cs = Inr cs"
      using False by (subst tile_rows.simps) simp
    ultimately show ?thesis by simp
  next
    case True
    from tile_row_lattice [of x_max y x_min cs]
    obtain row where row: "tile_row x_max y x_min cs = Inr row" and rsub: "set cs \<subseteq> set row"
      and rlat: "\<forall>i::nat. x_min + real i * spacing \<le> x_max \<longrightarrow>
          ?c (x_min + real i * spacing) y \<in> set row"
      by blast
    have step: "tile_rows x_min x_max y_max y cs = tile_rows x_min x_max y_max (y + spacing) row"
      using True row by (subst tile_rows.simps) simp
    from "1.IH" [OF True row]
    obtain cs' where r: "tile_rows x_min x_max y_max (y + spacing) row = Inr cs'"
      and sub: "set row \<subseteq> set cs'"
      and lat: "\<forall>j i::nat. y + spacing + real j * spacing \<le> y_max
          \<and> x_min + real i * spacing \<le> x_max \<longrightarrow>
          ?c (x_min + real i * spacing) (y + spacing + real j * spacing) \<in> set cs'"
      by blast
    have "?c (x_min + real i * spacing) (y + real j * spacing) \<in> set cs'"
      if "y + real j * spacing \<le> y_max" "x_min + real i * spacing \<le> x_max" for j i :: nat
    proof (cases j)
      case 0
      then show ?thesis using rlat that(2) sub by auto
    next
      case (Suc j')
      then have e: "y + real j * spacing = y + spacing + real j' * spacing"
        by (simp add: algebra_simps)
      from that have "y + spacing + real j' * spacing \<le> y_max \<and> x_min + real i * spacing \<le> x_max"
        unfolding e by simp
      from lat [rule_format, OF this] show ?thesis unfolding e .
    qed
    with step r sub rsub show ?thesis by auto
  qed
qed

section \<open>Width and height of the bounding box\<close>

lemma arcsin_ge_self:
  fixes t :: real
  assumes "0 \<le> t" and "t \<le> 1"
  shows "t \<le> arcsin t"
proof -
  have "arcsin 0 \<le> arcsin t" using assms by (intro arcsin_le_arcsin) simp_all
  then have "0 \<le> arcsin t" by simp
  then have "sin (arcsin t) \<le> arcsin t" by (rule sin_x_le_x)
  moreover have "sin (arcsin t) = t" using assms by (intro sin_arcsin) simp_all
  ultimately show ?thesis by simp
qed

lemma bbox_height: "haversine BBOX_SOUTH BBOX_WEST BBOX_NORTH BBOX_WEST
    = Inr (R * radians (BBOX_NORTH - BBOX_SOUTH))"
proof -
  define u where "u = radians (BBOX_NORTH - BBOX_SOUTH) / 2"
  have u0: "0 \<le> u" by (simp add: u_def radians_def BBOX_NORTH_def BBOX_SOUTH_def)
  have "u = pi / 2000" by (simp add: u_def radians_def BBOX_NORTH_def BBOX_SOUTH_def)
  moreover have "pi / 2000 \<le> pi / 2" by simp
  ultimately have u1: "u \<le> pi / 2" by (simp only:)
  have s0: "0 \<le> sin u" using u0 u1 by (intro sin_ge_zero) simp_all
  have e: "arcsin (sin u) = u" using u0 u1 by (intro arcsin_sin) simp_all
  from haversine_value [where ?lat1.0 = BBOX_SOUTH and ?lat2.0 = BBOX_NORTH
      and ?lon1.0 = BBOX_WEST and ?lon2.0 = BBOX_WEST]
  have "haversine BBOX_SOUTH BBOX_WEST BBOX_NORTH BBOX_WEST
      = Inr (2 * R * arcsin (sqrt ((sin u)\<^sup>2)))"
    by (simp add: u_def radians_def BBOX_NORTH_def BBOX_SOUTH_def)
  also have "sqrt ((sin u)\<^sup>2) = sin u" using s0 by simp
  finally have "haversine BBOX_SOUTH BBOX_WEST BBOX_NORTH BBOX_WEST = Inr (2 * R * u)"
    by (simp only: e)
  moreover have "2 * R * u = R * radians (BBOX_NORTH - BBOX_SOUTH)" unfolding u_def by simp
  ultimately show ?thesis by (simp only:)
qed

lemma bbox_width:
  "\<exists>w. haversine BBOX_SOUTH BBOX_WEST BBOX_SOUTH BBOX_EAST = Inr w
    \<and> R * cos (radians BBOX_SOUTH) * radians (BBOX_EAST - BBOX_WEST) - 1 \<le> w"
proof -
  define v where "v = radians (BBOX_EAST - BBOX_WEST) / 2"
  define c where "c = cos (radians BBOX_SOUTH)"
  have c0: "0 \<le> c" using cos_south by (simp add: c_def)
  have c1: "c \<le> 1" by (simp add: c_def)
  have ve: "v = (33 / 200) * pi / 180" by (simp add: v_def radians_def BBOX_EAST_def BBOX_WEST_def)
  have v0: "0 \<le> v" by (simp add: ve)
  have "(33 / 200) * pi / 180 \<le> (33 / 200) * 4 / 180" using pi_less_4 by simp
  then have v1: "v \<le> 11 / 3000" by (simp add: ve)
  have vpi: "v \<le> pi" using v1 pi_ge_3 by linarith
  have s0: "0 \<le> sin v" using v0 vpi by (rule sin_ge_zero)
  have s1: "sin v \<le> 1" by simp
  have t0: "0 \<le> c * sin v" using c0 s0 by simp
  have t1: "c * sin v \<le> 1 * 1" using c0 c1 s0 s1 by (intro mult_mono) simp_all
  from haversine_value [where ?lat1.0 = BBOX_SOUTH and ?lat2.0 = BBOX_SOUTH
      and ?lon1.0 = BBOX_WEST and ?lon2.0 = BBOX_EAST]
  have h: "haversine BBOX_SOUTH BBOX_WEST BBOX_SOUTH BBOX_EAST
      = Inr (2 * R * arcsin (sqrt (c * c * (sin v)\<^sup>2)))"
    by (simp add: v_def c_def radians_def BBOX_SOUTH_def)
  have "c * c * (sin v)\<^sup>2 = (c * sin v)\<^sup>2" by (simp add: power2_eq_square)
  then have q: "sqrt (c * c * (sin v)\<^sup>2) = c * sin v" using t0 by simp
  have a: "c * sin v \<le> arcsin (c * sin v)" using t0 t1 by (intro arcsin_ge_self) simp_all
  have sl: "v - v ^ 3 / 6 \<le> sin v" using v0 by (rule sin_lower)
  have "v * v \<le> (11 / 3000) * (11 / 3000)" using v0 v1 by (intro mult_mono) simp_all
  then have "v * (v * v) \<le> (11 / 3000) * ((11 / 3000) * (11 / 3000))"
    using v0 v1 by (intro mult_mono) simp_all
  then have v3: "v ^ 3 \<le> 1331 / 27000000000" by (simp add: power3_eq_cube)
  have "c * (v - v ^ 3 / 6) \<le> c * sin v" using sl c0 by (rule mult_left_mono)
  then have "c * v - c * (v ^ 3 / 6) \<le> arcsin (c * sin v)" using a by (simp add: algebra_simps)
  moreover have "c * (v ^ 3 / 6) \<le> 1 * (v ^ 3 / 6)" using c1 v0 by (intro mult_right_mono) simp_all
  ultimately have "c * v - 1331 / 162000000000 \<le> arcsin (c * sin v)" using v3 by simp
  then have "2 * R * (c * v - 1331 / 162000000000) \<le> 2 * R * arcsin (c * sin v)"
    by (intro mult_left_mono) (simp_all add: R_def)
  moreover have "2 * R * (1331 / 162000000000) \<le> 1" by (simp add: R_def)
  ultimately have "2 * R * (c * v) - 1 \<le> 2 * R * arcsin (c * sin v)" by (simp add: algebra_simps)
  moreover have "2 * R * (c * v) = R * c * radians (BBOX_EAST - BBOX_WEST)"
    unfolding v_def by simp
  ultimately have "R * c * radians (BBOX_EAST - BBOX_WEST) - 1 \<le> 2 * R * arcsin (c * sin v)"
    by (simp only:)
  with h q show ?thesis unfolding c_def by simp
qed

section \<open>Distance to the nearest tile center\<close>

lemma half_spacing_sq: "(spacing / 2)\<^sup>2 = 405000"
  by (simp add: spacing_def tile_radius_def MAX_INFLUENCE_M_def power2_eq_square)

lemma half_spacing_le: "spacing / 2 \<le> 637"
proof -
  have "(spacing / 2)\<^sup>2 \<le> 637\<^sup>2" by (simp add: half_spacing_sq)
  then show ?thesis by (rule power2_le_imp_le) simp
qed

lemma nearest_index:
  fixes t :: real
  assumes "0 \<le> t"
  shows "\<exists>i::nat. \<bar>t - real i * spacing\<bar> \<le> spacing / 2"
proof -
  define z where "z = round (t / spacing)"
  have "0 \<le> t / spacing" using assms spacing_pos by simp
  then have "round (0::real) \<le> round (t / spacing)" by (rule round_mono)
  then have z0: "0 \<le> z" by (simp add: z_def)
  have "\<bar>of_int z - t / spacing\<bar> \<le> 1 / 2" unfolding z_def by (rule of_int_round_abs_le)
  then have "\<bar>of_int z - t / spacing\<bar> * spacing \<le> (1 / 2) * spacing"
    using spacing_pos by (intro mult_right_mono) simp_all
  moreover have "\<bar>of_int z - t / spacing\<bar> * spacing = \<bar>(of_int z - t / spacing) * spacing\<bar>"
    using spacing_pos by (simp add: abs_mult)
  moreover have "(of_int z - t / spacing) * spacing = of_int z * spacing - t"
    using spacing_pos by (simp add: field_simps)
  ultimately have "\<bar>of_int z * spacing - t\<bar> \<le> spacing / 2" by simp
  moreover have "real (nat z) = of_int z" using z0 by simp
  ultimately have "\<bar>t - real (nat z) * spacing\<bar> \<le> spacing / 2" by (simp add: abs_minus_commute)
  then show ?thesis ..
qed

lemma sin_sq_le:
  fixes x :: real
  shows "(sin x)\<^sup>2 \<le> x\<^sup>2"
proof -
  have "\<bar>sin x\<bar> \<le> \<bar>x\<bar>" by (rule abs_sin_x_le_abs_x)
  then show ?thesis by (simp only: abs_le_square_iff)
qed

lemma center_distance:
  fixes lat lon dx dy :: real
  assumes lat: "BBOX_SOUTH \<le> lat" "lat \<le> BBOX_NORTH"
    and dx: "\<bar>dx\<bar> \<le> spacing / 2" and dy: "\<bar>dy\<bar> \<le> spacing / 2"
  shows "\<exists>d. haversine lat lon (lat + (dy / R) * (180 / pi))
            (lon + (dx / (R * cos (radians BBOX_SOUTH))) * (180 / pi)) = Inr d
          \<and> d \<le> tile_radius"
proof -
  define c where "c = cos (radians BBOX_SOUTH)"
  define k where "k = 1 / (2 * R)"
  define clat where "clat = lat + (dy / R) * (180 / pi)"
  define clon where "clon = lon + (dx / (R * c)) * (180 / pi)"
  have cl: "433 / 500 \<le> c" using cos_south by (simp add: c_def)
  then have cpos: "0 < c" by simp
  have Rpos: "0 < R" by (simp add: R_def)
  have kpos: "0 < k" using Rpos by (simp add: k_def)
  have lat28: "567 / 20 \<le> lat" "lat \<le> 2853 / 100"
    using lat by (simp_all add: BBOX_SOUTH_def BBOX_NORTH_def)
  have latv: "\<bar>lat\<bar> \<le> 90" using lat28 by simp
  have dy637: "\<bar>dy\<bar> \<le> 637" using dy half_spacing_le by linarith
  have "\<bar>(dy / R) * (180 / pi)\<bar> = \<bar>dy\<bar> * (180 / (R * pi))"
    using Rpos by (simp add: abs_mult)
  also have "\<dots> \<le> 637 * (180 / (R * pi))" using dy637 Rpos by (intro mult_right_mono) simp_all
  also have "\<dots> \<le> 637 * (180 / (R * 3))"
    using pi_ge_3 Rpos by (intro mult_left_mono divide_left_mono mult_left_mono) simp_all
  also have "\<dots> \<le> 1" by (simp add: R_def)
  finally have off: "\<bar>(dy / R) * (180 / pi)\<bar> \<le> 1" .
  have clatv: "\<bar>clat\<bar> \<le> 90" using off lat28 unfolding clat_def by linarith
  have rdy: "radians (clat - lat) / 2 = dy * k"
    using Rpos by (simp add: clat_def radians_def k_def)
  have rdx: "radians (clon - lon) / 2 = dx * k / c"
    using Rpos cpos by (simp add: clon_def radians_def k_def)
  define a where "a = (sin (radians (clat - lat) / 2))\<^sup>2
      + cos (radians lat) * cos (radians clat) * (sin (radians (clon - lon) / 2))\<^sup>2"
  from haversine_value [where ?lat1.0 = lat and ?lat2.0 = clat
      and ?lon1.0 = lon and ?lon2.0 = clon, OF latv clatv]
  have a01: "0 \<le> a" "a \<le> 1"
    and h: "haversine lat lon clat clon = Inr (2 * R * arcsin (sqrt a))"
    unfolding a_def by simp_all
  have dx2: "dx\<^sup>2 \<le> 405000"
  proof -
    have "\<bar>dx\<bar> \<le> \<bar>spacing / 2\<bar>" using dx spacing_pos by simp
    then have "dx\<^sup>2 \<le> (spacing / 2)\<^sup>2" by (simp only: abs_le_square_iff)
    then show ?thesis by (simp only: half_spacing_sq)
  qed
  have dy2: "dy\<^sup>2 \<le> 405000"
  proof -
    have "\<bar>dy\<bar> \<le> \<bar>spacing / 2\<bar>" using dy spacing_pos by simp
    then have "dy\<^sup>2 \<le> (spacing / 2)\<^sup>2" by (simp only: abs_le_square_iff)
    then show ?thesis by (simp only: half_spacing_sq)
  qed
  have k2: "0 \<le> k\<^sup>2" by simp
  have t1: "(sin (radians (clat - lat) / 2))\<^sup>2 \<le> 405000 * k\<^sup>2"
  proof -
    have "(sin (dy * k))\<^sup>2 \<le> (dy * k)\<^sup>2" by (rule sin_sq_le)
    also have "\<dots> = dy\<^sup>2 * k\<^sup>2" by (simp add: power_mult_distrib)
    also have "\<dots> \<le> 405000 * k\<^sup>2" using dy2 k2 by (rule mult_right_mono)
    finally show ?thesis by (simp only: rdy)
  qed
  have c1: "cos (radians lat) \<le> c"
    unfolding c_def using lat lat28
    by (intro cos_radians_mono) (simp_all add: BBOX_SOUTH_def)
  have c1pos: "0 \<le> cos (radians lat)"
    using radians_bounds [OF latv] by (intro cos_ge_zero) simp_all
  have c2pos: "0 \<le> cos (radians clat)"
    using radians_bounds [OF clatv] by (intro cos_ge_zero) simp_all
  have c2: "cos (radians clat) \<le> 1" by simp
  have cc: "cos (radians lat) * cos (radians clat) \<le> c * 1"
    using c1 c2 c1pos c2pos by (intro mult_mono) simp_all
  have s2: "(sin (radians (clon - lon) / 2))\<^sup>2 \<le> dx\<^sup>2 * k\<^sup>2 / c\<^sup>2"
  proof -
    have "(sin (dx * k / c))\<^sup>2 \<le> (dx * k / c)\<^sup>2" by (rule sin_sq_le)
    also have "\<dots> = dx\<^sup>2 * k\<^sup>2 / c\<^sup>2" by (simp add: power_mult_distrib power_divide)
    finally show ?thesis by (simp only: rdx)
  qed
  have t2: "cos (radians lat) * cos (radians clat) * (sin (radians (clon - lon) / 2))\<^sup>2
      \<le> 405000 * k\<^sup>2 * (500 / 433)"
  proof -
    have "cos (radians lat) * cos (radians clat) * (sin (radians (clon - lon) / 2))\<^sup>2
        \<le> (c * 1) * (dx\<^sup>2 * k\<^sup>2 / c\<^sup>2)"
      using cc s2 by (rule mult_mono) (use cpos in simp_all)
    also have "\<dots> = (dx\<^sup>2 * k\<^sup>2) * (1 / c)"
      using cpos by (simp add: power2_eq_square)
    also have "\<dots> \<le> (405000 * k\<^sup>2) * (500 / 433)"
    proof (rule mult_mono)
      show "dx\<^sup>2 * k\<^sup>2 \<le> 405000 * k\<^sup>2" using dx2 k2 by (rule mult_right_mono)
      have "1 / c \<le> 1 / (433 / 500)" using cl by (intro divide_left_mono) simp_all
      then show "1 / c \<le> 500 / 433" by simp
      show "0 \<le> 405000 * k\<^sup>2" by simp
      show "0 \<le> 1 / c" using cpos by simp
    qed
    finally show ?thesis .
  qed
  have "a \<le> 405000 * k\<^sup>2 + 405000 * k\<^sup>2 * (500 / 433)"
    unfolding a_def using t1 t2 by (rule add_mono)
  also have "\<dots> = (405000 * 933 / 433) * k\<^sup>2" by (simp add: algebra_simps)
  also have "\<dots> \<le> 874225 * k\<^sup>2" using k2 by (intro mult_right_mono) simp_all
  also have "\<dots> = (935 * k)\<^sup>2" by (simp add: power_mult_distrib)
  finally have ab: "a \<le> (935 * k)\<^sup>2" .
  have q: "sqrt a \<le> 935 * k" using ab kpos by (intro real_le_lsqrt) simp_all
  have ksmall: "935 * k \<le> 1 / 100" by (simp add: k_def R_def)
  have q0: "0 \<le> sqrt a" using a01 by simp
  have "arcsin (sqrt a) \<le> (101 / 100) * sqrt a"
    using arcsin_small [of "sqrt a"] q0 q ksmall by linarith
  also have "\<dots> \<le> (101 / 100) * (935 * k)" using q by (intro mult_left_mono) simp_all
  finally have "arcsin (sqrt a) \<le> (101 / 100) * (935 * k)" .
  then have "2 * R * arcsin (sqrt a) \<le> 2 * R * ((101 / 100) * (935 * k))"
    using Rpos by (intro mult_left_mono) simp_all
  also have "\<dots> = (101 / 100) * 935" using Rpos by (simp add: k_def)
  also have "\<dots> \<le> tile_radius" by (simp add: tile_radius_def MAX_INFLUENCE_M_def)
  finally have "2 * R * arcsin (sqrt a) \<le> tile_radius" .
  with h show ?thesis unfolding clat_def clon_def c_def by simp
qed

lemma haversine_commute: "haversine lat1 lon1 lat2 lon2 = haversine lat2 lon2 lat1 lon1"
proof -
  have e: "(sin (radians (x - y) / 2))\<^sup>2 = (sin (radians (y - x) / 2))\<^sup>2" for x y :: real
  proof -
    have "radians (x - y) = - radians (y - x)" unfolding radians_diff by linarith
    then have "radians (x - y) / 2 = - (radians (y - x) / 2)" by (simp only: minus_divide_left)
    then have "sin (radians (x - y) / 2) = - sin (radians (y - x) / 2)" by (simp only: sin_minus)
    then show ?thesis by (simp only: power2_minus)
  qed
  show ?thesis
    unfolding haversine_def Let_def e [of lat2 lat1] e [of lon2 lon1]
    by (simp only: mult.commute [of "cos (radians lat1)" "cos (radians lat2)"])
qed

lemma compute_tile_centers_lattice:
  "\<exists>w centers. haversine BBOX_SOUTH BBOX_WEST BBOX_SOUTH BBOX_EAST = Inr w
    \<and> R * cos (radians BBOX_SOUTH) * radians (BBOX_EAST - BBOX_WEST) - 1 \<le> w
    \<and> compute_tile_centers = Inr centers
    \<and> (\<forall>j i::nat. - tile_radius + real j * spacing
            \<le> R * radians (BBOX_NORTH - BBOX_SOUTH) + tile_radius
          \<and> - tile_radius + real i * spacing \<le> w + tile_radius \<longrightarrow>
          (BBOX_SOUTH + ((- tile_radius + real j * spacing) / R) * (180 / pi),
           BBOX_WEST + ((- tile_radius + real i * spacing) / (R * cos (radians BBOX_SOUTH)))
              * (180 / pi))
          \<in> set centers)"
proof -
  from bbox_width obtain w
    where w: "haversine BBOX_SOUTH BBOX_WEST BBOX_SOUTH BBOX_EAST = Inr w"
      and wl: "R * cos (radians BBOX_SOUTH) * radians (BBOX_EAST - BBOX_WEST) - 1 \<le> w"
    by blast
  have c: "compute_tile_centers = tile_rows (- tile_radius) (w + tile_radius)
      (R * radians (BBOX_NORTH - BBOX_SOUTH) + tile_radius) (- tile_radius) []"
    unfolding compute_tile_centers_def by (simp only: w bbox_height Let_def sum.case)
  from tile_rows_lattice [of "- tile_radius" "w + tile_radius"
      "R * radians (BBOX_NORTH - BBOX_SOUTH) + tile_radius" "- tile_radius" "[]"]
  show ?thesis unfolding c using w wl by blast
qed

section \<open>Claims about the collector\<close>

text \<open>
  Claim C6. If the service answers a unit's first \<open>k\<close> calls rate-limited
  (\<^verbatim>\<open>OVER_QUERY_LIMIT\<close>), with \<open>k\<close> at most \<open>COLLECTOR_RETRY_MAX\<close>, and the next call
  \<^verbatim>\<open>OK\<close>, then \<^verbatim>\<open>_fetch_one_tile\<close> returns the parsed results of that answer; it has slept
  \<open>2 ^ i\<close> seconds after the \<open>i\<close>-th rate-limited answer (from 0), in total
  \<open>2 ^ 0 + \<dots> + 2 ^ (k - 1)\<close> seconds, and each of these answers has increased the retry
  counter by one.
\<close>

theorem rate_limited_then_ok:
  assumes "k \<le> COLLECTOR_RETRY_MAX"
    and "\<forall>i<k. rate_limited (env i)"
    and "env k = Reply 200 ''OK'' results"
  shows "fst (fetch_one_tile env now keyword) =
           Inr (map (parse_place now (inject_type_of keyword)) results)
      \<and> sleeps (snd (fetch_one_tile env now keyword)) = map (\<lambda>i. 2 ^ i) [0..<k]
      \<and> sum_list (sleeps (snd (fetch_one_tile env now keyword))) = (\<Sum>i<k. 2 ^ i)
      \<and> retries (snd (fetch_one_tile env now keyword)) = k
      \<and> attempts (snd (fetch_one_tile env now keyword)) = k + 1"
proof -
  let ?ity = "inject_type_of keyword"
  let ?s0 = "\<lparr>retries = 0, attempts = 0, sleeps = []\<rparr>"
  let ?t = "\<lparr>retries = k, attempts = k, sleeps = map (\<lambda>i. 2 ^ i) [0..<k]\<rparr>"
  have "fetch_loop env now ?ity ?s0 = fetch_loop env now ?ity ?t"
    using fetch_loop_limited_run [of ?s0 k env now ?ity] assms(1,2) by simp
  also have "\<dots> = (Inr (map (parse_place now ?ity) results), ?t\<lparr>attempts := attempts ?t + 1\<rparr>)"
    using assms(1,3) by (intro fetch_loop_ok) auto
  finally have "fetch_one_tile env now keyword =
      (Inr (map (parse_place now ?ity) results), ?t\<lparr>attempts := attempts ?t + 1\<rparr>)"
    by (simp add: fetch_one_tile_def)
  moreover have "sum_list (map (\<lambda>i. 2 ^ i) [0..<k]) = (\<Sum>i<k. (2::nat) ^ i)"
    by (simp add: sum_list_sum_nth atLeast0LessThan)
  ultimately show ?thesis by simp
qed

theorem rate_limited_then_ok_witness:
  "(2::nat) \<le> COLLECTOR_RETRY_MAX
   \<and> rate_limited (limited_twice_then_ok 0)
   \<and> rate_limited (limited_twice_then_ok 1)
   \<and> limited_twice_then_ok 2 = Reply 200 ''OK'' [cafe]
   \<and> fst (fetch_one_tile limited_twice_then_ok ''2024-01-01'' (Some ''IT park'')) =
       Inr [parse_place ''2024-01-01'' (Some ''it_park'') cafe]
   \<and> sleeps (snd (fetch_one_tile limited_twice_then_ok ''2024-01-01'' (Some ''IT park''))) = [1, 2]
   \<and> sum_list (sleeps (snd (fetch_one_tile limited_twice_then_ok ''2024-01-01''
        (Some ''IT park'')))) = 3"
proof -
  have h1: "(2::nat) \<le> COLLECTOR_RETRY_MAX"
    by (simp add: COLLECTOR_RETRY_MAX_def)
  have h2: "\<forall>i<2. rate_limited (limited_twice_then_ok i)"
    by (simp add: rate_limited_def limited_twice_then_ok_def)
  have h3: "limited_twice_then_ok 2 = Reply 200 ''OK'' [cafe]"
    by (simp add: limited_twice_then_ok_def)
  have ity: "inject_type_of (Some ''IT park'') = Some ''it_park''"
    by (simp add: inject_type_of_def truthy_def KEYWORD_TO_TYPE_def)
  have up: "[0..<2] = [0, 1]" by (simp add: upt_rec)
  have h4: "rate_limited (limited_twice_then_ok 0) \<and> rate_limited (limited_twice_then_ok 1)"
    by (simp add: rate_limited_def limited_twice_then_ok_def)
  show ?thesis
    using rate_limited_then_ok [OF h1 h2 h3, of "''2024-01-01''" "Some ''IT park''"] h1 h3 h4
    by (simp add: ity up)
qed

text \<open>
  Claim C7. \<^verbatim>\<open>_fetch_one_tile\<close> returns the empty list, and does not raise, when the lookup
  fails terminally. After any number \<open>n\<close> of retried answers within the budget, an answer
  that is permanently denied, has an unrecognised status or is not HTTP 200 ends the unit
  at once: the result is empty and no call follows that answer (\<open>n + 1\<close> calls in all).
  When every answer is a rate limit or a timeout, the budget runs out and the result is
  empty as well.
\<close>

theorem terminal_failure_returns_empty:
  "(n \<le> COLLECTOR_RETRY_MAX \<and> (\<forall>i<n. retryable (env i)) \<and> terminal_failure (env n)
      \<longrightarrow> fst (fetch_one_tile env now keyword) = Inr []
          \<and> attempts (snd (fetch_one_tile env now keyword)) = n + 1)
   \<and> ((\<forall>i\<le>COLLECTOR_RETRY_MAX. retryable (env i))
      \<longrightarrow> fst (fetch_one_tile env now keyword) = Inr []
          \<and> attempts (snd (fetch_one_tile env now keyword)) = COLLECTOR_RETRY_MAX + 1)"
proof (intro conjI impI)
  let ?ity = "inject_type_of keyword"
  let ?s0 = "\<lparr>retries = 0, attempts = 0, sleeps = []\<rparr>"
  have unit: "fetch_one_tile env now keyword = fetch_loop env now ?ity ?s0"
    by (simp add: fetch_one_tile_def)
  {
    assume a: "n \<le> COLLECTOR_RETRY_MAX \<and> (\<forall>i<n. retryable (env i)) \<and> terminal_failure (env n)"
    then obtain sl where "fetch_loop env now ?ity ?s0 =
        fetch_loop env now ?ity \<lparr>retries = n, attempts = n, sleeps = sl\<rparr>"
      using fetch_loop_retry_run [of ?s0 n env now ?ity] by auto
    moreover have "fetch_loop env now ?ity \<lparr>retries = n, attempts = n, sleeps = sl\<rparr> =
        (Inr [], \<lparr>retries = n, attempts = n, sleeps = sl\<rparr>\<lparr>attempts := n + 1\<rparr>)"
      using a fetch_loop_terminal [of "\<lparr>retries = n, attempts = n, sleeps = sl\<rparr>" env now ?ity]
      by simp
    ultimately have r: "fetch_one_tile env now keyword =
        (Inr [], \<lparr>retries = n, attempts = n + 1, sleeps = sl\<rparr>)"
      using unit by simp
    show "fst (fetch_one_tile env now keyword) = Inr []" by (simp add: r)
    show "attempts (snd (fetch_one_tile env now keyword)) = n + 1" by (simp add: r)
  }
  {
    assume a: "\<forall>i\<le>COLLECTOR_RETRY_MAX. retryable (env i)"
    let ?m = "COLLECTOR_RETRY_MAX + 1"
    from a obtain sl where "fetch_loop env now ?ity ?s0 =
        fetch_loop env now ?ity \<lparr>retries = ?m, attempts = ?m, sleeps = sl\<rparr>"
      using fetch_loop_retry_run [of ?s0 ?m env now ?ity] by auto
    moreover have "fetch_loop env now ?ity \<lparr>retries = ?m, attempts = ?m, sleeps = sl\<rparr> =
        (Inr [], \<lparr>retries = ?m, attempts = ?m, sleeps = sl\<rparr>)"
      by (intro fetch_loop_exhausted) simp
    ultimately have r: "fetch_one_tile env now keyword =
        (Inr [], \<lparr>retries = ?m, attempts = ?m, sleeps = sl\<rparr>)"
      using unit by simp
    show "fst (fetch_one_tile env now keyword) = Inr []" by (simp add: r)
    show "attempts (snd (fetch_one_tile env now keyword)) = COLLECTOR_RETRY_MAX + 1"
      by (simp add: r)
  }
qed

theorem terminal_failure_returns_empty_witness:
  "(1::nat) \<le> COLLECTOR_RETRY_MAX
   \<and> retryable (denied_after_timeout 0)
   \<and> terminal_failure (denied_after_timeout 1)
   \<and> fst (fetch_one_tile denied_after_timeout ''2024-01-01'' None) = Inr []
   \<and> attempts (snd (fetch_one_tile denied_after_timeout ''2024-01-01'' None)) = 2
   \<and> retryable (always_timeout 0) \<and> retryable (always_timeout 1)
   \<and> retryable (always_timeout 2) \<and> retryable (always_timeout 3)
   \<and> fst (fetch_one_tile always_timeout ''2024-01-01'' None) = Inr []
   \<and> attempts (snd (fetch_one_tile always_timeout ''2024-01-01'' None)) = 4"
proof -
  have h1: "(1::nat) \<le> COLLECTOR_RETRY_MAX \<and> (\<forall>i<1. retryable (denied_after_timeout i))
      \<and> terminal_failure (denied_after_timeout 1)"
    by (simp add: COLLECTOR_RETRY_MAX_def retryable_def terminal_failure_def
        denied_after_timeout_def)
  have h2: "\<forall>i\<le>COLLECTOR_RETRY_MAX. retryable (always_timeout i)"
    by (simp add: retryable_def always_timeout_def)
  have h3: "retryable (denied_after_timeout 0) \<and> terminal_failure (denied_after_timeout 1)"
    by (simp add: retryable_def terminal_failure_def denied_after_timeout_def)
  have h4: "retryable (always_timeout i)" for i
    by (simp add: retryable_def always_timeout_def)
  show ?thesis
    using terminal_failure_returns_empty [of 1 denied_after_timeout "''2024-01-01''" None]
      terminal_failure_returns_empty [of 0 always_timeout "''2024-01-01''" None] h1 h2 h3 h4
    by (simp add: COLLECTOR_RETRY_MAX_def)
qed

text \<open>
  Claim C8, as the specification states it: the number of lookups issued for one unit
  never exceeds \<open>COLLECTOR_RETRY_MAX\<close>. The loop runs while \<open>retries \<le> COLLECTOR_RETRY_MAX\<close>,
  so four timeouts in a row make four lookups with \<open>COLLECTOR_RETRY_MAX = 3\<close>.
\<close>

theorem attempts_exceed_retry_max:
  "attempts (snd (fetch_one_tile always_timeout ''2024-01-01'' None)) = 4
   \<and> \<not> attempts (snd (fetch_one_tile always_timeout ''2024-01-01'' None)) \<le> COLLECTOR_RETRY_MAX"
proof -
  let ?ity = "inject_type_of None"
  have step: "retries s \<le> COLLECTOR_RETRY_MAX \<Longrightarrow>
      fetch_loop always_timeout ''2024-01-01'' ?ity s =
      fetch_loop always_timeout ''2024-01-01'' ?ity
        \<lparr>retries = retries s + 1, attempts = attempts s + 1, sleeps = sleeps s @ [1]\<rparr>" for s
    by (rule fetch_loop_timeout) (simp_all add: always_timeout_def)
  have "fetch_one_tile always_timeout ''2024-01-01'' None =
      (Inr [], \<lparr>retries = 4, attempts = 4, sleeps = [1, 1, 1, 1]\<rparr>)"
    unfolding fetch_one_tile_def
    by (simp add: step fetch_loop_exhausted COLLECTOR_RETRY_MAX_def)
  then show ?thesis by (simp add: COLLECTOR_RETRY_MAX_def)
qed

text \<open>
  Claim C8, amended. The retry loop of \<^verbatim>\<open>_fetch_one_tile\<close> terminates for every sequence of
  answers (\<open>fetch_loop\<close> is a total function, by its termination proof), and the number of
  lookups issued for one unit never exceeds \<open>COLLECTOR_RETRY_MAX + 1\<close>: the first attempt
  and at most \<open>COLLECTOR_RETRY_MAX\<close> retries.
\<close>

theorem attempts_bounded:
  "attempts (snd (fetch_one_tile env now keyword)) \<le> COLLECTOR_RETRY_MAX + 1"
  using fetch_loop_attempts_le
    [of env now "inject_type_of keyword" "\<lparr>retries = 0, attempts = 0, sleeps = []\<rparr>"]
  by (simp add: fetch_one_tile_def)

text \<open>
  Claim C10. Folding any sequence of fetched batches into the merged set of \<^verbatim>\<open>collect_pois\<close>
  gives a dictionary with one entry for each distinct non-empty \<^verbatim>\<open>place_id\<close> among the
  records and no other entry; the entry of an id is the whole record that was folded last
  among those with this id; a record whose \<^verbatim>\<open>place_id\<close> is empty is not among the values.
\<close>

theorem collect_merge_dedup:
  "distinct (map fst (collect_merge rounds))
   \<and> set (map fst (collect_merge rounds)) =
       {k. k \<noteq> [] \<and> k \<in> place_id ` set (concat (concat rounds))}
   \<and> (\<forall>(k, v) \<in> set (collect_merge rounds).
         v = last (filter (\<lambda>p. place_id p = k) (concat (concat rounds))) \<and> place_id v = k)
   \<and> (\<forall>p \<in> set (concat (concat rounds)).
         place_id p = [] \<longrightarrow> p \<notin> snd ` set (collect_merge rounds))"
proof -
  let ?ps = "concat (concat rounds)"
  let ?d = "collect_merge rounds"
  have d: "distinct (map fst ?d)"
    by (simp add: collect_merge_concat distinct_fold_merge_poi)
  have m: "map_of ?d k = (if k \<noteq> [] \<and> k \<in> place_id ` set ?ps
     then Some (last (filter (\<lambda>p. place_id p = k) ?ps)) else None)" for k
    by (simp add: collect_merge_concat map_of_fold_merge_poi)
  have keys: "set (map fst ?d) = {k. k \<noteq> [] \<and> k \<in> place_id ` set ?ps}"
  proof -
    have "set (map fst ?d) = dom (map_of ?d)" by (simp add: dom_map_of_conv_image_fst)
    also have "\<dots> = {k. k \<noteq> [] \<and> k \<in> place_id ` set ?ps}"
      by (auto simp: dom_def m)
    finally show ?thesis .
  qed
  have vals: "v = last (filter (\<lambda>p. place_id p = k) ?ps) \<and> place_id v = k"
    if "(k, v) \<in> set ?d" for k v
  proof -
    from that d have s: "map_of ?d k = Some v" by simp
    then have kk: "k \<noteq> [] \<and> k \<in> place_id ` set ?ps"
      by (simp add: m split: if_splits)
    with s have v: "v = last (filter (\<lambda>p. place_id p = k) ?ps)"
      by (simp add: m)
    from kk have "filter (\<lambda>p. place_id p = k) ?ps \<noteq> []"
      by (auto simp: filter_empty_conv)
    then have "last (filter (\<lambda>p. place_id p = k) ?ps) \<in> set (filter (\<lambda>p. place_id p = k) ?ps)"
      by (rule last_in_set)
    with v show ?thesis by simp
  qed
  have empty: "p \<notin> snd ` set ?d" if "p \<in> set ?ps" "place_id p = []" for p
  proof
    assume "p \<in> snd ` set ?d"
    then obtain k where kp: "(k, p) \<in> set ?d" by auto
    from vals [OF kp] that(2) have "k = []" by simp
    moreover from kp have "k \<in> set (map fst ?d)" by force
    ultimately show False using keys by auto
  qed
  show ?thesis using d keys vals empty by blast
qed

theorem collect_merge_dedup_witness:
  "collect_merge overlapping_rounds = [(''p1'', named_poi ''p1'' ''second'')]
   \<and> named_poi ''p1'' ''second'' =
       last (filter (\<lambda>p. place_id p = ''p1'') (concat (concat overlapping_rounds)))
   \<and> named_poi [] ''anonymous'' \<in> set (concat (concat overlapping_rounds))
   \<and> place_id (named_poi [] ''anonymous'') = []
   \<and> named_poi [] ''anonymous'' \<notin> snd ` set (collect_merge overlapping_rounds)"
proof -
  have ids: "place_id (named_poi pid nm) = pid" for pid nm
    by (simp add: named_poi_def parse_place_def opt_default_def Let_def)
  have c: "collect_merge overlapping_rounds = [(''p1'', named_poi ''p1'' ''second'')]"
    by (simp add: collect_merge_def merge_results_def merge_poi_def overlapping_rounds_def ids)
  have m: "named_poi [] ''anonymous'' \<in> set (concat (concat overlapping_rounds))"
    by (simp add: overlapping_rounds_def)
  note th = conjunct2 [OF conjunct2 [OF collect_merge_dedup [of overlapping_rounds]]]
  from th have v: "\<forall>(k, v) \<in> set (collect_merge overlapping_rounds).
         v = last (filter (\<lambda>p. place_id p = k) (concat (concat overlapping_rounds)))
         \<and> place_id v = k"
    by (rule conjunct1)
  from th have a: "\<forall>p \<in> set (concat (concat overlapping_rounds)).
         place_id p = [] \<longrightarrow> p \<notin> snd ` set (collect_merge overlapping_rounds)"
    by (rule conjunct2)
  have e: "named_poi [] ''anonymous'' \<notin> snd ` set (collect_merge overlapping_rounds)"
    by (rule mp [OF bspec [OF a m] ids])
  have "(''p1'', named_poi ''p1'' ''second'') \<in> set (collect_merge overlapping_rounds)"
    by (simp add: c)
  from bspec [OF v this]
  have l: "named_poi ''p1'' ''second'' =
       last (filter (\<lambda>p. place_id p = ''p1'') (concat (concat overlapping_rounds)))"
    by simp
  from c l m ids e show ?thesis by (intro conjI)
qed

section \<open>Claims about the profile of one grid point\<close>

text \<open>
  Claim C5. For every grid point, \<^verbatim>\<open>compute_profile\<close> on the empty list of nearby POIs
  returns a profile (it does not fail) with confidence 0, footfall proxy 0, every bucket
  of the age profile and of the interests present with value 0, no geographic attribute
  and an empty list of nearest POIs.
\<close>

theorem compute_profile_empty:
  "compute_profile gp [] =
    Inr \<lparr> grid_point_id = gp_id gp, prof_lat = gp_lat gp, prof_lon = gp_lon gp,
          prof_poi_summary = \<lparr> nearest = [], counts = [] \<rparr>,
          geographic_attributes = [],
          prof_audience =
            \<lparr> age_profile = map (\<lambda>b. (b, 0)) AGE_BUCKETS,
              interests = map (\<lambda>c. (c, 0)) INTEREST_CATEGORIES,
              footfall_proxy = 0, confidence = 0 \<rparr>,
          sigma_m = SIGMA_M, max_influence_m = MAX_INFLUENCE_M \<rparr>"
  by (simp add: compute_profile_def zero_dict_AGE_BUCKETS zero_dict_INTEREST_CATEGORIES
      normalize_def dict_update_def)

text \<open>
  Claim C4, as the specification states it: \<^verbatim>\<open>poi_summary.counts\<close> covers all POIs within
  the influence radius, tallied by resolved primary category. The loop that fills
  \<^verbatim>\<open>counts\<close> calls \<^verbatim>\<open>_primary_type\<close> and skips the POI when no tag is in the importance
  table (\<^verbatim>\<open>if ptype:\<close>); only the loop that fills \<^verbatim>\<open>nearest\<close> falls back to the first raw
  tag. A cafe 10 m away is listed in \<^verbatim>\<open>nearest\<close> with type \<^verbatim>\<open>cafe\<close> and is in no count.
\<close>

theorem uncategorised_poi_not_counted:
  "primary_type (types corner_cafe) = None
   \<and> compute_profile origin_point [(corner_cafe, 10)] =
      Inr \<lparr> grid_point_id = ''g_0_0'', prof_lat = 28.4084, prof_lon = 77.0417,
            prof_poi_summary =
              \<lparr> nearest = [\<lparr> ne_place_id = ''c1'', ne_name = ''Corner Cafe'',
                            ne_type = ''cafe'', ne_distance_m = 10 \<rparr>],
                counts = [] \<rparr>,
            geographic_attributes = [],
            prof_audience =
              \<lparr> age_profile = map (\<lambda>b. (b, 0)) AGE_BUCKETS,
                interests = map (\<lambda>c. (c, 0)) INTEREST_CATEGORIES,
                footfall_proxy = 0, confidence = 0 \<rparr>,
            sigma_m = SIGMA_M, max_influence_m = MAX_INFLUENCE_M \<rparr>"
proof -
  have t: "primary_type (types corner_cafe) = None"
    by (simp add: corner_cafe_def TYPE_IMPORTANCE_def)
  have r: "py_round 10 (Suc 0) = 10"
    by (simp add: py_round_def round_half_even_def)
  have n: "nearest_entry_of (corner_cafe, 10) =
      \<lparr> ne_place_id = ''c1'', ne_name = ''Corner Cafe'', ne_type = ''cafe'',
        ne_distance_m = 10 \<rparr>"
    by (simp add: nearest_entry_of_def Let_def t r) (simp add: corner_cafe_def)
  have "compute_profile origin_point [(corner_cafe, 10)] =
      Inr \<lparr> grid_point_id = gp_id origin_point, prof_lat = gp_lat origin_point,
            prof_lon = gp_lon origin_point,
            prof_poi_summary = \<lparr> nearest = [nearest_entry_of (corner_cafe, 10)], counts = [] \<rparr>,
            geographic_attributes = [],
            prof_audience =
              \<lparr> age_profile = map (\<lambda>b. (b, 0)) AGE_BUCKETS,
                interests = map (\<lambda>c. (c, 0)) INTEREST_CATEGORIES,
                footfall_proxy = 0, confidence = 0 \<rparr>,
            sigma_m = SIGMA_M, max_influence_m = MAX_INFLUENCE_M \<rparr>"
    by (simp add: compute_profile_def t zero_dict_AGE_BUCKETS zero_dict_INTEREST_CATEGORIES
        normalize_def dict_update_def)
  then show ?thesis
    unfolding n by (simp add: t origin_point_def)
qed

text \<open>
  Claim C4, amended. Whenever \<^verbatim>\<open>compute_profile\<close> returns a profile for a list of nearby
  POIs with their distances, \<^verbatim>\<open>poi_summary.nearest\<close> has \<open>min 10 n\<close> entries for \<open>n\<close> POIs, so
  at most 10; it is sorted ascending by distance; its entries are made from POIs \<open>chosen\<close>
  such that no POI left out is closer than a chosen one. \<^verbatim>\<open>poi_summary.counts\<close> has, for every
  category \<open>t\<close> of the importance table, the number of all POIs of the list whose first
  tag in the table is \<open>t\<close>, whatever their rank, and no entry for a category without such
  a POI; a POI with no tag in the table is in no count, so the counts add up to the number
  of POIs that have such a tag.
\<close>

theorem nearest_and_counts:
  assumes "compute_profile gp nearby = Inr prof"
  shows "nearest (prof_poi_summary prof) = map nearest_entry_of (take 10 (sort_key snd nearby))
    \<and> length (nearest (prof_poi_summary prof)) = min 10 (length nearby)
    \<and> sorted (map ne_distance_m (nearest (prof_poi_summary prof)))
    \<and> (\<exists>chosen rest. mset (chosen @ rest) = mset nearby
          \<and> nearest (prof_poi_summary prof) = map nearest_entry_of chosen
          \<and> sorted (map snd chosen)
          \<and> (\<forall>a \<in> set chosen. \<forall>b \<in> set rest. snd a \<le> snd b))
    \<and> distinct (map fst (counts (prof_poi_summary prof)))
    \<and> (\<forall>t. map_of (counts (prof_poi_summary prof)) t =
          (let n = length (filter (\<lambda>pd. primary_type (types (fst pd)) = Some t) nearby)
           in if n = 0 then None else Some n))
    \<and> sum_list (map snd (counts (prof_poi_summary prof))) =
        length (filter (\<lambda>pd. primary_type (types (fst pd)) \<noteq> None) nearby)"
proof -
  let ?srt = "sort_key snd nearby"
  note s = compute_profile_summary [OF assms]
  have n: "nearest (prof_poi_summary prof) = map nearest_entry_of (take 10 ?srt)"
    using s by simp
  have l: "length (nearest (prof_poi_summary prof)) = min 10 (length nearby)"
    by (simp add: n min.commute)
  have srt: "sorted (map snd ?srt)"
    by simp
  have "sorted (map snd (take 10 ?srt))"
    using srt by (simp add: take_map [symmetric] sorted_wrt_take)
  then have chosen: "sorted (map snd (take 10 ?srt))" .
  have "ne_distance_m (nearest_entry_of pd) = py_round (snd pd) 1" for pd
    by (simp add: nearest_entry_of_def Let_def)
  then have "map ne_distance_m (nearest (prof_poi_summary prof)) =
      map (\<lambda>d. py_round d 1) (map snd (take 10 ?srt))"
    unfolding n map_map by (intro map_cong) simp_all
  moreover have "sorted (map (\<lambda>d. py_round d 1) (map snd (take 10 ?srt)))"
    using chosen by (intro sorted_map [THEN iffD2]) (auto simp: sorted_wrt_map intro: sorted_wrt_mono_rel [rotated] py_round_mono)
  ultimately have d: "sorted (map ne_distance_m (nearest (prof_poi_summary prof)))"
    by (simp only:)
  have ex: "\<exists>chosen rest. mset (chosen @ rest) = mset nearby
          \<and> nearest (prof_poi_summary prof) = map nearest_entry_of chosen
          \<and> sorted (map snd chosen)
          \<and> (\<forall>a \<in> set chosen. \<forall>b \<in> set rest. snd a \<le> snd b)"
  proof -
    have 1: "mset (take 10 ?srt @ drop 10 ?srt) = mset nearby" by simp
    have 2: "\<forall>a \<in> set (take 10 ?srt). \<forall>b \<in> set (drop 10 ?srt). snd a \<le> snd b"
      using sorted_take_drop [OF srt] by blast
    from 1 n chosen 2 show ?thesis by blast
  qed
  have c: "counts (prof_poi_summary prof) = count_types ?srt []"
    using s by simp
  have dc: "distinct (map fst (counts (prof_poi_summary prof)))"
    by (simp add: c distinct_count_types)
  have mc: "map_of (counts (prof_poi_summary prof)) t =
          (let n = length (filter (\<lambda>pd. primary_type (types (fst pd)) = Some t) nearby)
           in if n = 0 then None else Some n)" for t
    unfolding c map_of_count_types length_filter_sort_key
    by (simp add: dict_get_def Let_def)
  have sc: "sum_list (map snd (counts (prof_poi_summary prof))) =
        length (filter (\<lambda>pd. primary_type (types (fst pd)) \<noteq> None) nearby)"
    unfolding c sum_count_types length_filter_sort_key by simp
  from n l d ex dc mc sc show ?thesis by blast
qed

theorem nearest_and_counts_witness:
  "\<exists>prof. compute_profile origin_point two_schools = Inr prof
     \<and> map ne_place_id (nearest (prof_poi_summary prof)) = [''near'', ''far'']
     \<and> length (nearest (prof_poi_summary prof)) = 2
     \<and> sorted (map ne_distance_m (nearest (prof_poi_summary prof)))
     \<and> map_of (counts (prof_poi_summary prof)) ''school'' = Some 2"
proof -
  have "\<forall>pd \<in> set two_schools. \<forall>n. user_ratings_total (fst pd) = Some n \<longrightarrow> 0 \<le> n"
    by (simp add: two_schools_def school_def)
  from compute_profile_succeeds [OF this]
  obtain prof where prof: "compute_profile origin_point two_schools = Inr prof"
    by blast
  have pt: "primary_type (types (school pid)) = Some ''school''" for pid
    by (simp add: school_def TYPE_IMPORTANCE_def)
  have srt: "sort_key snd two_schools = [(school ''near'', 50), (school ''far'', 800)]"
    by (simp add: two_schools_def)
  have ids: "ne_place_id (nearest_entry_of pd) = place_id (fst pd)" for pd
    by (simp add: nearest_entry_of_def Let_def)
  have cnt: "length (filter (\<lambda>pd. primary_type (types (fst pd)) = Some ''school'') two_schools) = 2"
    by (simp add: two_schools_def pt)
  note th = nearest_and_counts [OF prof]
  have n: "nearest (prof_poi_summary prof) =
      map nearest_entry_of (take 10 (sort_key snd two_schools))"
    by (rule th [THEN conjunct1])
  have s: "sorted (map ne_distance_m (nearest (prof_poi_summary prof)))"
    by (rule th [THEN conjunct2, THEN conjunct2, THEN conjunct1])
  have "map_of (counts (prof_poi_summary prof)) ''school'' =
      (let n = length (filter (\<lambda>pd. primary_type (types (fst pd)) = Some ''school'')
                 two_schools)
       in if n = 0 then None else Some n)"
    by (rule th [THEN conjunct2, THEN conjunct2, THEN conjunct2, THEN conjunct2,
          THEN conjunct2, THEN conjunct1, THEN spec])
  then have c: "map_of (counts (prof_poi_summary prof)) ''school'' = Some 2"
    by (simp only: cnt Let_def) simp
  have i: "map ne_place_id (nearest (prof_poi_summary prof)) = [''near'', ''far'']"
    by (simp add: n srt ids school_def)
  have l: "length (nearest (prof_poi_summary prof)) = 2"
    by (simp add: n srt)
  from prof i l s c show ?thesis by (intro exI [of _ prof] conjI)
qed

text \<open>
  Claim C3. Whenever \<^verbatim>\<open>compute_profile\<close> returns a profile, the keys of \<^verbatim>\<open>age_profile\<close> are
  exactly \<open>AGE_BUCKETS\<close> and the keys of \<^verbatim>\<open>interests\<close> are exactly \<open>INTEREST_CATEGORIES\<close>
  (each once, in the order of the configuration), and the values of each map either sum
  to 1 within the rounding tolerance, half a unit of the second decimal for each bucket
  (0.03 for six age buckets, 0.04 for eight interest categories), or are all 0.
\<close>

theorem profile_distributions:
  assumes "compute_profile gp nearby = Inr prof"
  shows "map fst (age_profile (prof_audience prof)) = AGE_BUCKETS
    \<and> map fst (interests (prof_audience prof)) = INTEREST_CATEGORIES
    \<and> (\<bar>sum_list (map snd (age_profile (prof_audience prof))) - 1\<bar> \<le> 0.03
        \<or> (\<forall>kv \<in> set (age_profile (prof_audience prof)). snd kv = 0))
    \<and> (\<bar>sum_list (map snd (interests (prof_audience prof))) - 1\<bar> \<le> 0.04
        \<or> (\<forall>kv \<in> set (interests (prof_audience prof)). snd kv = 0))"
proof -
  from compute_profile_audience [OF assms] obtain acc where ok: "scores_ok acc"
    and a: "age_profile (prof_audience prof) =
        dict_update (map (\<lambda>b. (b, 0)) AGE_BUCKETS) (normalize (age_scores acc))"
    and i: "interests (prof_audience prof) =
        dict_update (map (\<lambda>b. (b, 0)) INTEREST_CATEGORIES) (normalize (interest_scores acc))"
    unfolding zero_dict_AGE_BUCKETS zero_dict_INTEREST_CATEGORIES by blast
  have da: "distinct AGE_BUCKETS" and la: "length AGE_BUCKETS = 6"
    by (simp_all add: AGE_BUCKETS_def)
  have di: "distinct INTEREST_CATEGORIES" and li: "length INTEREST_CATEGORIES = 8"
    by (simp_all add: INTEREST_CATEGORIES_def)
  from ok have oka: "distinct (map fst (age_scores acc))"
      "fst ` set (age_scores acc) \<subseteq> set AGE_BUCKETS"
    and oki: "distinct (map fst (interest_scores acc))"
      "fst ` set (interest_scores acc) \<subseteq> set INTEREST_CATEGORIES"
    by (simp_all add: scores_ok_def)
  from distribution_over_universe [OF da oka] have A:
    "map fst (age_profile (prof_audience prof)) = AGE_BUCKETS
    \<and> (\<bar>sum_list (map snd (age_profile (prof_audience prof))) - 1\<bar> \<le> 0.03
        \<or> (\<forall>kv \<in> set (age_profile (prof_audience prof)). snd kv = 0))"
    unfolding a la by simp
  from distribution_over_universe [OF di oki] have I:
    "map fst (interests (prof_audience prof)) = INTEREST_CATEGORIES
    \<and> (\<bar>sum_list (map snd (interests (prof_audience prof))) - 1\<bar> \<le> 0.04
        \<or> (\<forall>kv \<in> set (interests (prof_audience prof)). snd kv = 0))"
    unfolding i li by simp
  from A I show ?thesis by blast
qed

theorem profile_distributions_witness:
  "\<exists>prof. compute_profile origin_point two_schools = Inr prof
     \<and> map fst (age_profile (prof_audience prof)) =
         [''0-12'', ''13-17'', ''18-24'', ''25-34'', ''35-50'', ''50+'']
     \<and> map fst (interests (prof_audience prof)) =
         [''education'', ''shopping'', ''food'', ''health'', ''transit'', ''entertainment'',
          ''business'', ''lifestyle'']
     \<and> (\<bar>sum_list (map snd (age_profile (prof_audience prof))) - 1\<bar> \<le> 0.03
        \<or> (\<forall>kv \<in> set (age_profile (prof_audience prof)). snd kv = 0))
     \<and> (\<bar>sum_list (map snd (interests (prof_audience prof))) - 1\<bar> \<le> 0.04
        \<or> (\<forall>kv \<in> set (interests (prof_audience prof)). snd kv = 0))"
proof -
  have "\<forall>pd \<in> set two_schools. \<forall>n. user_ratings_total (fst pd) = Some n \<longrightarrow> 0 \<le> n"
    by (simp add: two_schools_def school_def)
  from compute_profile_succeeds [OF this]
  obtain prof where prof: "compute_profile origin_point two_schools = Inr prof"
    by blast
  from profile_distributions [OF prof] prof show ?thesis
    unfolding AGE_BUCKETS_def INTEREST_CATEGORIES_def by (intro exI [of _ prof]) simp
qed

text \<open>
  Claim C9, as the specification states it: a single POI with a known primary category
  gives strictly greater confidence at 50 m than at 800 m, whatever its attributes. The
  confidence is capped: \<^verbatim>\<open>round(min(1.0, total_influence / 15.0), 2)\<close>. A school with
  \<open>10 ^ 100000\<close> reviews has a popularity factor above 200000, its weight exceeds 15 at
  both distances, and both confidences are 1.
\<close>

theorem saturated_confidence_not_greater:
  "primary_type (types famous_school) = Some ''school''
   \<and> result_confidence (compute_profile origin_point [(famous_school, 50)]) = Some 1
   \<and> result_confidence (compute_profile origin_point [(famous_school, 800)]) = Some 1"
proof -
  have t: "primary_type (types famous_school) = Some ''school''"
    by (simp add: famous_school_def school_def TYPE_IMPORTANCE_def)
  have u: "user_ratings_total famous_school = Some huge_reviews"
    by (simp add: famous_school_def)
  define pop where "pop = 1 + ln (real_of_int (1 + huge_reviews))"
  have pf: "popularity_factor (user_ratings_total famous_school) = Inr pop"
    unfolding u using huge_reviews_pos by (simp add: popularity_factor_def pop_def)
  have big: "200001 \<le> pop" unfolding pop_def using huge_reviews_ln by simp
  have imp: "dict_get TYPE_IMPORTANCE ''school'' 1 = 1.2"
    by (simp add: TYPE_IMPORTANCE_def dict_get_def)
  have far: "15 \<le> 1.2 * exp (- 8) * pop"
  proof -
    have "1.2 * (1 / 6561) \<le> 1.2 * exp (- 8 :: real)"
      using exp_8_bounds by (intro mult_left_mono) simp_all
    then have "1.2 * (1 / 6561) * 200001 \<le> 1.2 * exp (- 8) * pop"
      using big by (rule mult_mono) simp_all
    then show ?thesis by simp
  qed
  have near: "15 \<le> 1.2 * exp (- (1 / 32)) * pop"
  proof -
    have "1.2 * (31 / 32) \<le> 1.2 * exp (- (1 / 32) :: real)"
      using decay_50_lower by (intro mult_left_mono) simp_all
    then have "1.2 * (31 / 32) * 200001 \<le> 1.2 * exp (- (1 / 32)) * pop"
      using big by (rule mult_mono) simp_all
    then show ?thesis by simp
  qed
  have "result_confidence (compute_profile origin_point [(famous_school, 50)]) = Some 1"
    unfolding single_poi_result_confidence [OF t pf] imp decay_50 Let_def
    using saturated [OF near] by simp
  moreover have "result_confidence (compute_profile origin_point [(famous_school, 800)]) = Some 1"
    unfolding single_poi_result_confidence [OF t pf] imp decay_800 Let_def
    using saturated [OF far] by simp
  ultimately show ?thesis using t by simp
qed

text \<open>
  Claim C9, amended. For a single POI whose primary category is in the importance table,
  with all attributes but the distance fixed, the confidence at 50 m is at least the
  confidence at 800 m, and it is strictly greater unless the confidence at 800 m is
  already capped at 1; in particular it is strictly greater whenever the review count is
  missing or below \<open>2 ^ 63\<close>.
\<close>

theorem closer_poi_confidence:
  assumes t: "primary_type (types p) = Some t"
    and near: "compute_profile gp [(p, 50)] = Inr near"
    and far: "compute_profile gp [(p, 800)] = Inr far"
  shows "confidence (prof_audience far) \<le> confidence (prof_audience near)
    \<and> (confidence (prof_audience far) < 1
        \<longrightarrow> confidence (prof_audience far) < confidence (prof_audience near))
    \<and> ((case user_ratings_total p of None \<Rightarrow> True | Some n \<Rightarrow> n < 2 ^ 63)
        \<longrightarrow> confidence (prof_audience far) < confidence (prof_audience near))"
proof -
  let ?imp = "dict_get TYPE_IMPORTANCE t 1"
  let ?a = "exp (- (1 / 32) :: real)" and ?b = "exp (- 8 :: real)"
  from single_poi_confidence [OF near t] single_poi_confidence [OF far t]
  obtain pop where pop: "popularity_factor (user_ratings_total p) = Inr pop"
    and cn: "confidence (prof_audience near) =
        (let w = ?imp * ?a * pop in if 0 < w then py_round (min 1 (w / 15)) 2 else 0)"
    and cf: "confidence (prof_audience far) =
        (let w = ?imp * ?b * pop in if 0 < w then py_round (min 1 (w / 15)) 2 else 0)"
    unfolding decay_50 decay_800 by auto
  note imp = importance_bounds [OF t]
  have p1: "1 \<le> pop" using pop by (rule popularity_factor_ge_1)
  have pa: "0 < ?imp * ?a * pop" and pb: "0 < ?imp * ?b * pop"
    using imp p1 by (simp_all add: zero_less_mult_iff)
  have cn': "confidence (prof_audience near) = py_round (min 1 (?imp * ?a * pop / 15)) 2"
    unfolding cn Let_def using pa by simp
  have cf': "confidence (prof_audience far) = py_round (min 1 (?imp * ?b * pop / 15)) 2"
    unfolding cf Let_def using pb by simp
  have b0: "0 < ?b" by simp
  note cmp = confidence_compare [OF conjunct1 [OF imp] conjunct2 [OF imp] p1 decay_50_lower b0
      decay_ratio conjunct1 [OF exp_8_bounds]]
  have "(case user_ratings_total p of None \<Rightarrow> True | Some n \<Rightarrow> n < 2 ^ 63) \<Longrightarrow> pop \<le> 64"
    using pop by (rule popularity_factor_int64)
  with cmp show ?thesis unfolding cn' cf' by blast
qed

theorem closer_poi_confidence_witness:
  "primary_type (types (school ''s'')) = Some ''school''
   \<and> (\<exists>near far. compute_profile origin_point [(school ''s'', 50)] = Inr near
         \<and> compute_profile origin_point [(school ''s'', 800)] = Inr far
         \<and> confidence (prof_audience far) < confidence (prof_audience near))"
proof -
  have t: "primary_type (types (school ''s'')) = Some ''school''"
    by (simp add: school_def TYPE_IMPORTANCE_def)
  have "\<forall>pd \<in> set [(school ''s'', d)]. \<forall>n. user_ratings_total (fst pd) = Some n \<longrightarrow> 0 \<le> n"
    for d :: real
    by (simp add: school_def)
  from compute_profile_succeeds [OF this]
  obtain near far where near: "compute_profile origin_point [(school ''s'', 50)] = Inr near"
    and far: "compute_profile origin_point [(school ''s'', 800)] = Inr far"
    by blast
  have "case user_ratings_total (school ''s'') of None \<Rightarrow> True | Some n \<Rightarrow> n < 2 ^ 63"
    by (simp add: school_def)
  with closer_poi_confidence [OF t near far]
  have "confidence (prof_audience far) < confidence (prof_audience near)"
    by blast
  with t near far show ?thesis by blast
qed

section \<open>Claims about the spatial filter\<close>




section \<open>Claims about the tile centers\<close>

text \<open>
  Claim C1: \<^verbatim>\<open>compute_tile_centers\<close> returns a list, and for every point inside the
  configured bounding box the list contains a center whose haversine distance to the point
  (measured from either end) is at most \<open>tile_radius\<close>, which is \<open>MAX_INFLUENCE_M\<close>.
  Coordinates and distances are real numbers here, so the steps \<^verbatim>\<open>x += spacing\<close> and
  \<^verbatim>\<open>y += spacing\<close> add exactly.
\<close>

theorem tile_centers_cover:
  fixes lat lon :: real
  assumes "BBOX_SOUTH \<le> lat" and "lat \<le> BBOX_NORTH"
    and "BBOX_WEST \<le> lon" and "lon \<le> BBOX_EAST"
  shows "\<exists>centers. compute_tile_centers = Inr centers
    \<and> (\<exists>c \<in> set centers. \<exists>d. haversine (fst c) (snd c) lat lon = Inr d
          \<and> haversine lat lon (fst c) (snd c) = Inr d \<and> d \<le> tile_radius)"
proof -
  define cS where "cS = cos (radians BBOX_SOUTH)"
  have cl: "433 / 500 \<le> cS" using cos_south by (simp add: cS_def)
  then have cpos: "0 < cS" by simp
  have Rpos: "0 < R" by (simp add: R_def)
  have tr: "tile_radius = 1000" by (simp add: tile_radius_def MAX_INFLUENCE_M_def)
  from compute_tile_centers_lattice obtain w centers
    where wl: "R * cS * radians (BBOX_EAST - BBOX_WEST) - 1 \<le> w"
      and cs: "compute_tile_centers = Inr centers"
      and lattice: "\<And>j i::nat. - tile_radius + real j * spacing
            \<le> R * radians (BBOX_NORTH - BBOX_SOUTH) + tile_radius
          \<Longrightarrow> - tile_radius + real i * spacing \<le> w + tile_radius \<Longrightarrow>
          (BBOX_SOUTH + ((- tile_radius + real j * spacing) / R) * (180 / pi),
           BBOX_WEST + ((- tile_radius + real i * spacing) / (R * cS)) * (180 / pi))
          \<in> set centers"
    unfolding cS_def by blast
  define xp where "xp = R * cS * radians (lon - BBOX_WEST)"
  define yp where "yp = R * radians (lat - BBOX_SOUTH)"
  have rmono: "radians u \<le> radians v" if "u \<le> v" for u v
    using that by (simp add: radians_def)
  have r0: "0 \<le> radians u" if "0 \<le> u" for u using that by (simp add: radians_def)
  have xp0: "0 \<le> xp" unfolding xp_def using Rpos cpos assms(3) by (intro mult_nonneg_nonneg r0) simp_all
  have yp0: "0 \<le> yp" unfolding yp_def using Rpos assms(1) by (intro mult_nonneg_nonneg r0) simp_all
  have "R * cS * radians (lon - BBOX_WEST) \<le> R * cS * radians (BBOX_EAST - BBOX_WEST)"
    using Rpos cpos assms(4) by (intro mult_left_mono rmono) simp_all
  then have xpw: "xp \<le> w + 1" using wl by (simp add: xp_def)
  have yph: "yp \<le> R * radians (BBOX_NORTH - BBOX_SOUTH)"
    unfolding yp_def using Rpos assms(2) by (intro mult_left_mono rmono) simp_all
  from nearest_index [of "xp + tile_radius"] xp0 tr obtain i :: nat
    where i: "\<bar>xp + tile_radius - real i * spacing\<bar> \<le> spacing / 2" by auto
  from nearest_index [of "yp + tile_radius"] yp0 tr obtain j :: nat
    where j: "\<bar>yp + tile_radius - real j * spacing\<bar> \<le> spacing / 2" by auto
  define dx where "dx = - tile_radius + real i * spacing - xp"
  define dy where "dy = - tile_radius + real j * spacing - yp"
  have dx: "\<bar>dx\<bar> \<le> spacing / 2" using i unfolding dx_def by linarith
  have dy: "\<bar>dy\<bar> \<le> spacing / 2" using j unfolding dy_def by linarith
  have "- tile_radius + real i * spacing \<le> xp + 637"
    using dx half_spacing_le unfolding dx_def by linarith
  then have ix: "- tile_radius + real i * spacing \<le> w + tile_radius" using xpw tr by linarith
  have "- tile_radius + real j * spacing \<le> yp + 637"
    using dy half_spacing_le unfolding dy_def by linarith
  then have jy: "- tile_radius + real j * spacing
      \<le> R * radians (BBOX_NORTH - BBOX_SOUTH) + tile_radius" using yph tr by linarith
  define c where "c = (BBOX_SOUTH + ((- tile_radius + real j * spacing) / R) * (180 / pi),
           BBOX_WEST + ((- tile_radius + real i * spacing) / (R * cS)) * (180 / pi))"
  have cin: "c \<in> set centers" unfolding c_def using jy ix by (rule lattice)
  have "(yp / R) * (180 / pi) = lat - BBOX_SOUTH" using Rpos by (simp add: yp_def radians_def)
  moreover have "- tile_radius + real j * spacing = yp + dy" by (simp add: dy_def)
  ultimately have e1: "fst c = lat + (dy / R) * (180 / pi)"
    by (simp add: c_def add_divide_distrib distrib_right)
  have "(xp / (R * cS)) * (180 / pi) = lon - BBOX_WEST"
    using Rpos cpos by (simp add: xp_def radians_def)
  moreover have "- tile_radius + real i * spacing = xp + dx" by (simp add: dx_def)
  ultimately have e2: "snd c = lon + (dx / (R * cS)) * (180 / pi)"
    by (simp add: c_def add_divide_distrib distrib_right)
  from center_distance [OF assms(1,2) dx dy, of lon] obtain d
    where "haversine lat lon (fst c) (snd c) = Inr d" and "d \<le> tile_radius"
    unfolding e1 e2 cS_def by blast
  moreover from this have "haversine (fst c) (snd c) lat lon = Inr d"
    by (simp only: haversine_commute [of "fst c" "snd c" lat lon])
  ultimately show ?thesis using cs cin by blast
qed

text \<open>
  The theorem at the point (28.4084, 77.0417), which lies inside the bounding box.
\<close>

theorem tile_centers_cover_witness:
  "BBOX_SOUTH \<le> 28.4084 \<and> 28.4084 \<le> BBOX_NORTH \<and> BBOX_WEST \<le> 77.0417 \<and> 77.0417 \<le> BBOX_EAST
    \<and> (\<exists>centers. compute_tile_centers = Inr centers
    \<and> (\<exists>c \<in> set centers. \<exists>d. haversine (fst c) (snd c) 28.4084 77.0417 = Inr d
          \<and> haversine 28.4084 77.0417 (fst c) (snd c) = Inr d \<and> d \<le> tile_radius))"
  using tile_centers_cover [of "28.4084" "77.0417"]
  by (simp add: BBOX_SOUTH_def BBOX_NORTH_def BBOX_WEST_def BBOX_EAST_def)

end
